theory Spec2Isabelle
  imports Complex_Main "HOL-Library.Product_Lexorder" "HOL-Library.Multiset"
begin

unbundle bit_operations_syntax

section \<open>Data model of stripe.py\<close>

text \<open>
  A Python \<open>str\<close> is a sequence of Unicode code points, so a string is a list of
  naturals (one per code point) and \<open>len\<close> is \<open>length\<close>. Font sizes and
  coordinates are Python floats; they are modelled as exact rationals, so that the source's
  \<open>==\<close>, \<open><\<close> and \<open>- 1\<close> on them are the exact ones.
\<close>

type_synonym ustring = "nat list"

type_synonym rect = "rat \<times> rat \<times> rat \<times> rat"

definition ustr :: "string \<Rightarrow> ustring" where
  "ustr s = map of_char s"

text \<open>
  The functions of third-party libraries that the source calls and that are not part of
  the repository are parameters of the model: \<open>unicodedata.normalize("NFC", _)\<close>, the
  character classes \<open>\d\<close> and \<open>\w\<close> of \<open>re\<close> on \<open>str\<close> patterns, the
  matching of a literal pattern character under \<open>re.IGNORECASE\<close> (first argument: the
  pattern character), and \<open>fitz.Rect.intersects\<close>.
\<close>

record library =
  nfc :: "ustring \<Rightarrow> ustring"
  isdecimal :: "nat \<Rightarrow> bool"
  isalnum :: "nat \<Rightarrow> bool"
  ignorecase_eq :: "nat \<Rightarrow> nat \<Rightarrow> bool"
  intersects :: "rect \<Rightarrow> rect \<Rightarrow> bool"

text \<open>The dict that \<open>extract_spans\<close> builds for each accepted fragment.\<close>

record span =
  span_text :: ustring
  font_size :: rat
  is_bold :: bool
  bbox :: rect
  page :: nat

datatype level = H1 | H2 | H3

text \<open>The dict that \<open>assign_heading_levels\<close> builds for each heading.\<close>

record heading =
  level :: level
  heading_text :: ustring
  heading_page :: nat

text \<open>
  What the source reads from PyMuPDF: a span of \<open>page.get_text("dict")\<close>, a line (its
  \<open>"spans"\<close>), a block (\<open>block.get("type")\<close> and its \<open>"lines"\<close>, \<open>None\<close> when the key
  is absent), a table of \<open>page.find_tables()\<close> (its \<open>bbox\<close>, \<open>None\<close> for a falsy one)
  and a page.
\<close>

record raw_span =
  raw_text :: ustring
  raw_size :: rat
  raw_flags :: int
  raw_bbox :: rect

record text_line =
  line_spans :: "raw_span list"

record block =
  block_type :: "int option"
  block_lines :: "text_line list option"

record table =
  table_bbox :: "rect option"

record pdf_page =
  blocks :: "block list"
  tables :: "table list"

section \<open>Configurable parameters\<close>

definition BUFFER_SIZE :: rat where
  "BUFFER_SIZE = 10"

definition VERTICAL_TOLERANCE :: rat where
  "VERTICAL_TOLERANCE = 5"

definition MIN_HEADING_LEN :: nat where
  "MIN_HEADING_LEN = 2"

definition MAX_HEADING_CHARS :: nat where
  "MAX_HEADING_CHARS = 120"

section \<open>Strings and regular expressions\<close>

text \<open>
  \<open>str.strip()\<close> and the class \<open>\s\<close> use the same whitespace test of CPython
  (\<open>Py_UNICODE_ISSPACE\<close>): the code points below.
\<close>

definition py_isspace :: "nat \<Rightarrow> bool" where
  "py_isspace c \<longleftrightarrow>
     (9 \<le> c \<and> c \<le> 13) \<or> (28 \<le> c \<and> c \<le> 32) \<or> c = 133 \<or> c = 160 \<or> c = 5760 \<or>
     (8192 \<le> c \<and> c \<le> 8202) \<or> c = 8232 \<or> c = 8233 \<or> c = 8239 \<or> c = 8287 \<or> c = 12288"

definition strip :: "ustring \<Rightarrow> ustring" where
  "strip s = rev (dropWhile py_isspace (rev (dropWhile py_isspace s)))"

text \<open>\<open>sep.join(xs)\<close>\<close>

fun join :: "ustring \<Rightarrow> ustring list \<Rightarrow> ustring" where
  "join sep [] = []"
| "join sep [x] = x"
| "join sep (x # y # ys) = x @ sep @ join sep (y # ys)"

text \<open>
  The patterns of the source use literals, the classes \<open>\s\<close>, \<open>\d\<close>, \<open>\W\<close>, a
  bracket set, bounded and unbounded repetition of one character class, sequence and
  alternation.
\<close>

datatype atom = Lit nat | Space | Digit | NonWord | AnyOf "atom list"

datatype rx = Atom atom | Rep atom nat "nat option" | Seq "rx list" | Alt "rx list"

fun atom_ok :: "library \<Rightarrow> bool \<Rightarrow> atom \<Rightarrow> nat \<Rightarrow> bool" where
  "atom_ok L ic (Lit p) c = (if ic then ignorecase_eq L p c else p = c)"
| "atom_ok L ic Space c = py_isspace c"
| "atom_ok L ic Digit c = isdecimal L c"
| "atom_ok L ic NonWord c = (\<not> (isalnum L c \<or> c = 95))"
| "atom_ok L ic (AnyOf as) c = list_ex (\<lambda>a. atom_ok L ic a c) as"

text \<open>
  \<open>rep_rems\<close>: what is left of \<open>s\<close> after between \<open>m\<close> and \<open>mx\<close> (no upper bound
  when \<open>None\<close>) characters of the class \<open>a\<close>, every possibility.
\<close>

fun rep_rems :: "library \<Rightarrow> bool \<Rightarrow> atom \<Rightarrow> nat \<Rightarrow> nat option \<Rightarrow> ustring \<Rightarrow> ustring list" where
  "rep_rems L ic a m mx [] = (if m = 0 then [ [] ] else [])"
| "rep_rems L ic a m mx (c # cs) =
     (if m = 0 then [c # cs] else []) @
     (if mx \<noteq> Some 0 \<and> atom_ok L ic a c
      then rep_rems L ic a (m - 1) (map_option (\<lambda>k. k - 1) mx) cs else [])"

text \<open>\<open>rx_rems\<close>: every remainder of \<open>s\<close> after a prefix that the pattern matches.\<close>

fun rx_rems :: "library \<Rightarrow> bool \<Rightarrow> rx \<Rightarrow> ustring \<Rightarrow> ustring list" where
  "rx_rems L ic (Atom a) s =
     (case s of [] \<Rightarrow> [] | c # cs \<Rightarrow> if atom_ok L ic a c then [cs] else [])"
| "rx_rems L ic (Rep a m mx) s = rep_rems L ic a m mx s"
| "rx_rems L ic (Seq []) s = [s]"
| "rx_rems L ic (Seq (r # rs)) s = concat (map (rx_rems L ic (Seq rs)) (rx_rems L ic r s))"
| "rx_rems L ic (Alt rs) s = concat (map (\<lambda>r. rx_rems L ic r s) rs)"

text \<open>
  \<open>re.match(r"^...$", s)\<close>: the pattern matches a prefix of \<open>s\<close> and \<open>$\<close> holds
  after it, at the end of the string or before a newline that ends the string. The flag is
  \<open>re.IGNORECASE\<close>.
\<close>

definition at_end :: "ustring \<Rightarrow> bool" where
  "at_end t \<longleftrightarrow> t = [] \<or> t = [10]"

definition re_match :: "library \<Rightarrow> bool \<Rightarrow> rx \<Rightarrow> ustring \<Rightarrow> bool" where
  "re_match L ic r s = list_ex at_end (rx_rems L ic r s)"

definition lits :: "string \<Rightarrow> rx" where
  "lits s = Seq (map (\<lambda>c. Atom (Lit (of_char c))) s)"

text \<open>\<open>^(Page\s+\d+|May\s+\d{1,2},\s+\d{4}|Version\s+\d{4})$\<close>\<close>

definition rx_stamp :: rx where
  "rx_stamp = Alt
     [Seq [lits ''Page'', Rep Space 1 None, Rep Digit 1 None],
      Seq [lits ''May'', Rep Space 1 None, Rep Digit 1 (Some 2), lits '','', Rep Space 1 None,
           Rep Digit 4 (Some 4)],
      Seq [lits ''Version'', Rep Space 1 None, Rep Digit 4 (Some 4)] ]"

text \<open>\<open>^\d{1,2}:\d{2}\s*(AM|PM|a\.m\.|p\.m\.)$\<close>\<close>

definition rx_clock :: rx where
  "rx_clock = Seq
     [Rep Digit 1 (Some 2), lits '':'', Rep Digit 2 (Some 2), Rep Space 0 None,
      Alt [lits ''AM'', lits ''PM'', lits ''a.m.'', lits ''p.m.''] ]"

text \<open>\<open>^\d{1,2}/\d{1,2}/\d{4}$\<close>\<close>

definition rx_date :: rx where
  "rx_date = Seq
     [Rep Digit 1 (Some 2), lits ''/'', Rep Digit 1 (Some 2), lits ''/'', Rep Digit 4 (Some 4)]"

text \<open>\<open>^[\W_]+$\<close>\<close>

definition rx_symbols :: rx where
  "rx_symbols = Rep (AnyOf [NonWord, Lit 95]) 1 None"

section \<open>Normalize and validate heading\<close>

definition normalize_text :: "library \<Rightarrow> ustring \<Rightarrow> ustring" where
  "normalize_text L t = nfc L (strip t)"

text \<open>
  The characters of the string literal of the filler test, as the source file has them:
  \<open>.\<close>, U+00C2, U+00B7, U+00E2, U+20AC, U+00A2, \<open>-\<close>, \<open>_\<close>.
\<close>

definition filler_chars :: ustring where
  "filler_chars = [46, 194, 183, 226, 8364, 162, 45, 95]"

definition is_valid_heading :: "library \<Rightarrow> ustring \<Rightarrow> bool" where
  "is_valid_heading L text0 =
     (let t = normalize_text L text0 in
      if t = [] \<or> length t < MIN_HEADING_LEN then False
      else if list_all (\<lambda>c. c \<in> set filler_chars) t then False
      else if re_match L True rx_stamp (strip t) then False
      else if length t > MAX_HEADING_CHARS then False
      else if re_match L True rx_clock t then False
      else if re_match L False rx_date t then False
      else True)"

section \<open>Extract text spans excluding tables\<close>

text \<open>
  \<open>round(x, 1)\<close> on an exact value: the nearest multiple of one tenth, a tie to the
  even one.
\<close>

definition round1 :: "rat \<Rightarrow> rat" where
  "round1 x =
     (let y = x * 10; f = \<lfloor>y\<rfloor>; d = y - of_int f
      in of_int (if d < 1 / 2 then f else if d > 1 / 2 then f + 1
                 else if even f then f else f + 1) / 10)"

definition buffered_bbox :: "rect \<Rightarrow> rect" where
  "buffered_bbox b =
     (case b of (x0, y0, x1, y1) \<Rightarrow>
        (x0 - BUFFER_SIZE, y0 - BUFFER_SIZE, x1 + BUFFER_SIZE, y1 + BUFFER_SIZE))"

text \<open>The list \<open>table_bboxes\<close> of a page: one buffered box for each table that has a box.\<close>

definition table_bboxes :: "pdf_page \<Rightarrow> rect list" where
  "table_bboxes pg = map buffered_bbox (List.map_filter table_bbox (tables pg))"

text \<open>The body of the innermost loop: \<open>None\<close> is \<open>continue\<close>.\<close>

definition collect_span :: "library \<Rightarrow> rect list \<Rightarrow> nat \<Rightarrow> raw_span \<Rightarrow> span option" where
  "collect_span L tbs page_num rs =
     (let t = normalize_text L (raw_text rs) in
      if \<not> is_valid_heading L t then None
      else if list_ex (\<lambda>tb. intersects L (raw_bbox rs) tb) tbs then None
      else Some \<lparr>span_text = t, font_size = round1 (raw_size rs),
                  is_bold = (raw_flags rs AND 2 \<noteq> 0), bbox = raw_bbox rs, page = page_num\<rparr>)"

definition block_spans :: "library \<Rightarrow> rect list \<Rightarrow> nat \<Rightarrow> block \<Rightarrow> span list" where
  "block_spans L tbs page_num b =
     (case block_lines b of
        None \<Rightarrow> []
      | Some ls \<Rightarrow>
          if block_type b = Some 1 then []
          else concat (map (\<lambda>l. List.map_filter (collect_span L tbs page_num) (line_spans l)) ls))"

definition page_spans :: "library \<Rightarrow> nat \<Rightarrow> pdf_page \<Rightarrow> span list" where
  "page_spans L page_num pg =
     concat (map (block_spans L (table_bboxes pg) page_num) (blocks pg))"

text \<open>
  \<open>spans_by_page\<close> is a \<open>defaultdict(list)\<close>: a page number becomes a key when its
  first span is appended, so the keys are the pages with at least one span, in ascending
  order. It is an association list in that order.
\<close>

type_synonym spans_by_page = "(nat \<times> span list) list"

definition extract_spans :: "library \<Rightarrow> pdf_page list \<Rightarrow> spans_by_page" where
  "extract_spans L doc =
     filter (\<lambda>(p, ss). ss \<noteq> [])
       (map (\<lambda>p. (p, page_spans L p (doc ! p))) [0..<length doc])"

section \<open>Extract title\<close>

definition bbox_left :: "rect \<Rightarrow> rat" where
  "bbox_left b = (case b of (x0, y0, x1, y1) \<Rightarrow> x0)"

definition bbox_top :: "rect \<Rightarrow> rat" where
  "bbox_top b = (case b of (x0, y0, x1, y1) \<Rightarrow> y0)"

definition bbox_bottom :: "rect \<Rightarrow> rat" where
  "bbox_bottom b = (case b of (x0, y0, x1, y1) \<Rightarrow> y1)"

text \<open>
  The loop over \<open>title_spans\<close>, with its variables \<open>lines\<close>, \<open>current_line\<close> and
  \<open>prev_bottom\<close>; it returns \<open>lines\<close> and \<open>current_line\<close> as they are after the loop.
\<close>

fun title_loop ::
  "span list \<Rightarrow> ustring list \<Rightarrow> ustring \<Rightarrow> rat option \<Rightarrow> ustring list \<times> ustring" where
  "title_loop [] lines current_line prev_bottom = (lines, current_line)"
| "title_loop (s # ss) lines current_line prev_bottom =
     (let top = bbox_top (bbox s) in
      if (case prev_bottom of None \<Rightarrow> False | Some pb \<Rightarrow> \<bar>top - pb\<bar> > VERTICAL_TOLERANCE)
      then title_loop ss (lines @ [strip current_line]) ([] @ [32] @ span_text s)
             (Some (bbox_bottom (bbox s)))
      else title_loop ss lines (current_line @ [32] @ span_text s)
             (Some (bbox_bottom (bbox s))))"

definition title_lines_of :: "span list \<Rightarrow> ustring list" where
  "title_lines_of title_spans =
     (case title_loop title_spans [] [] None of
        (lines, current_line) \<Rightarrow>
          if strip current_line \<noteq> [] then lines @ [strip current_line] else lines)"

text \<open>
  \<open>extract_title\<close> sorts its argument in place. The model returns the pair that the
  source returns and, as second component, the argument list as it is after the call.
\<close>

definition extract_title :: "library \<Rightarrow> span list \<Rightarrow> (ustring \<times> span list) \<times> span list" where
  "extract_title L spans_page0 =
     (if spans_page0 = [] then (([], []), spans_page0)
      else
        let sorted0 = sort_key (\<lambda>s. (- font_size s, bbox_top (bbox s))) spans_page0;
            max_size = font_size (hd sorted0);
            title_spans = sort_key (\<lambda>s. (bbox_top (bbox s), bbox_left (bbox s)))
                            (filter (\<lambda>s. font_size s = max_size) sorted0);
            title_text = strip (join [32] (title_lines_of title_spans))
        in if title_text = [] \<or> length title_text < MIN_HEADING_LEN
              \<or> re_match L False rx_symbols title_text
           then (([], []), sorted0)
           else ((title_text, title_spans), sorted0))"

section \<open>Assign heading levels\<close>

text \<open>The keys of \<open>Counter(xs)\<close>: the distinct elements, in the order of first occurrence.\<close>

definition counter_keys :: "'a list \<Rightarrow> 'a list" where
  "counter_keys xs = fold (\<lambda>x ks. if x \<in> set ks then ks else ks @ [x]) xs []"

text \<open>\<open>sorted(size_counter.keys(), reverse=True)\<close>\<close>

definition sorted_sizes_of :: "span list \<Rightarrow> rat list" where
  "sorted_sizes_of filtered_spans = rev (sort (counter_keys (map font_size filtered_spans)))"

definition size_thresholds :: "span list \<Rightarrow> rat \<times> rat \<times> rat" where
  "size_thresholds filtered_spans =
     (let sorted_sizes = sorted_sizes_of filtered_spans;
          h1_size = (if length sorted_sizes > 0 then sorted_sizes ! 0 else 0);
          h2_size = (if length sorted_sizes > 1 then sorted_sizes ! 1 else h1_size - 1);
          h3_size = (if length sorted_sizes > 2 then sorted_sizes ! 2 else h2_size - 1)
      in (h1_size, h2_size, h3_size))"

definition level_of :: "rat \<times> rat \<times> rat \<Rightarrow> span \<Rightarrow> level option" where
  "level_of th s =
     (case th of (h1_size, h2_size, h3_size) \<Rightarrow>
        if font_size s = h1_size \<and> is_bold s then Some H1
        else if font_size s = h2_size then Some H2
        else if font_size s = h3_size then Some H3
        else None)"

text \<open>The body of the loop over \<open>filtered_spans\<close>: the heading appended, if any.\<close>

definition heading_of :: "library \<Rightarrow> rat \<times> rat \<times> rat \<Rightarrow> span \<Rightarrow> heading option" where
  "heading_of L th s =
     (case level_of th s of
        None \<Rightarrow> None
      | Some l \<Rightarrow>
          if is_valid_heading L (span_text s)
          then Some \<lparr>level = l, heading_text = span_text s, heading_page = page s\<rparr>
          else None)"

text \<open>The duplicate removal, with its variables \<open>seen\<close> and \<open>unique_headings\<close>.\<close>

definition heading_key :: "heading \<Rightarrow> level \<times> ustring \<times> nat" where
  "heading_key h = (level h, heading_text h, heading_page h)"

definition dedup_step ::
  "heading \<Rightarrow> (level \<times> ustring \<times> nat) set \<times> heading list \<Rightarrow>
     (level \<times> ustring \<times> nat) set \<times> heading list" where
  "dedup_step h st =
     (case st of (seen, unique_headings) \<Rightarrow>
        let key = heading_key h in
        if key \<notin> seen then (insert key seen, unique_headings @ [h])
        else (seen, unique_headings))"

definition remove_duplicates :: "heading list \<Rightarrow> heading list" where
  "remove_duplicates headings = snd (fold dedup_step headings ({}, []))"

fun level_rank :: "level \<Rightarrow> nat" where
  "level_rank H1 = 1"
| "level_rank H2 = 2"
| "level_rank H3 = 3"

definition sort_headings :: "heading list \<Rightarrow> heading list" where
  "sort_headings hs = sort_key (\<lambda>x. (heading_page x, level_rank (level x))) hs"

definition filter_title :: "spans_by_page \<Rightarrow> span list \<Rightarrow> span list" where
  "filter_title sbp title_lines =
     (let all_spans = concat (map snd sbp);
          title_texts = set (map span_text title_lines)
      in filter (\<lambda>s. span_text s \<notin> title_texts) all_spans)"

text \<open>The list \<open>headings\<close> after the loop over \<open>filtered_spans\<close>.\<close>

definition raw_headings :: "library \<Rightarrow> span list \<Rightarrow> heading list" where
  "raw_headings L filtered_spans =
     List.map_filter (heading_of L (size_thresholds filtered_spans)) filtered_spans"

definition assign_heading_levels :: "library \<Rightarrow> spans_by_page \<Rightarrow> span list \<Rightarrow> heading list" where
  "assign_heading_levels L sbp title_lines =
     (let filtered_spans = filter_title sbp title_lines in
      if filtered_spans = [] then []
      else sort_headings (remove_duplicates (raw_headings L filtered_spans)))"

section \<open>Main extraction\<close>

text \<open>
  \<open>spans_by_page.get(0, [])\<close> is the list object stored under key 0 when there is one,
  so the in-place sort of \<open>extract_title\<close> is visible in \<open>spans_by_page\<close> afterwards.
\<close>

definition get_page0 :: "spans_by_page \<Rightarrow> span list" where
  "get_page0 sbp = (case map_of sbp 0 of None \<Rightarrow> [] | Some ss \<Rightarrow> ss)"

definition set_page0 :: "spans_by_page \<Rightarrow> span list \<Rightarrow> spans_by_page" where
  "set_page0 sbp ss = map (\<lambda>(p, old). if p = 0 then (p, ss) else (p, old)) sbp"

definition build_outline :: "library \<Rightarrow> spans_by_page \<Rightarrow> ustring \<times> heading list" where
  "build_outline L sbp =
     (case extract_title L (get_page0 sbp) of
        ((title, title_lines), page0_after) \<Rightarrow>
          (title, assign_heading_levels L (set_page0 sbp page0_after) title_lines))"

definition extract_outline_from_pdf :: "library \<Rightarrow> pdf_page list \<Rightarrow> ustring \<times> heading list" where
  "extract_outline_from_pdf L doc = build_outline L (extract_spans L doc)"

section \<open>A library instance for concrete runs\<close>

definition ascii_lower :: "nat \<Rightarrow> nat" where
  "ascii_lower c = (if 65 \<le> c \<and> c \<le> 90 then c + 32 else c)"

definition ascii_alnum :: "nat \<Rightarrow> bool" where
  "ascii_alnum c \<longleftrightarrow> (48 \<le> c \<and> c \<le> 57) \<or> (65 \<le> c \<and> c \<le> 90) \<or> (97 \<le> c \<and> c \<le> 122)"

definition ascii_digit :: "nat \<Rightarrow> bool" where
  "ascii_digit c \<longleftrightarrow> 48 \<le> c \<and> c \<le> 57"

definition rect_overlap :: "rect \<Rightarrow> rect \<Rightarrow> bool" where
  "rect_overlap a b =
     (case a of (ax0, ay0, ax1, ay1) \<Rightarrow> case b of (bx0, by0, bx1, by1) \<Rightarrow>
        max ax0 bx0 < min ax1 bx1 \<and> max ay0 by0 < min ay1 by1)"

text \<open>
  A library that is the identity for NFC, knows the ASCII digits and letters only and
  takes two rectangles to intersect when they share area.
\<close>

definition ascii_library :: library where
  "ascii_library =
     \<lparr>nfc = (\<lambda>s. s), isdecimal = ascii_digit, isalnum = ascii_alnum,
      ignorecase_eq = (\<lambda>p c. ascii_lower p = ascii_lower c), intersects = rect_overlap\<rparr>"

text \<open>
  What the theorems about ASCII text need of a library: on ASCII it is as Python's. NFC
  leaves an ASCII string as it is, the decimal digits and the alphanumeric characters below
  128 are the ASCII ones, and a literal matches an ASCII character under \<open>re.IGNORECASE\<close>
  when their lower cases are equal.
\<close>

definition ascii_conformant :: "library \<Rightarrow> bool" where
  "ascii_conformant L \<longleftrightarrow>
     (\<forall>s. list_all (\<lambda>c. c < 128) s \<longrightarrow> nfc L s = s) \<and>
     (\<forall>c. c < 128 \<longrightarrow> isdecimal L c = ascii_digit c) \<and>
     (\<forall>c. c < 128 \<longrightarrow> isalnum L c = ascii_alnum c) \<and>
     (\<forall>p c. p < 128 \<longrightarrow> c < 128 \<longrightarrow> ignorecase_eq L p c = (ascii_lower p = ascii_lower c))"

section \<open>The specification's wording of the thresholds\<close>

text \<open>
  The thresholds as the specification words them, from the set of distinct font sizes:
  the largest; the second largest, or the first minus 1 when there are fewer than two;
  the third largest, or the second minus 1 when there are fewer than three.
\<close>

definition spec_thresholds :: "rat set \<Rightarrow> rat \<times> rat \<times> rat" where
  "spec_thresholds S =
     (let h1 = Max S;
          h2 = (if 2 \<le> card S then Max (S - {h1}) else h1 - 1);
          h3 = (if 3 \<le> card S then Max (S - {h1, h2}) else h2 - 1)
      in (h1, h2, h3))"

section \<open>The specification's wording of the duplicate removal\<close>

text \<open>First occurrence wins, order preserved.\<close>

fun keep_first :: "'a list \<Rightarrow> 'a list" where
  "keep_first [] = []"
| "keep_first (x # xs) = x # filter (\<lambda>y. y \<noteq> x) (keep_first xs)"

section \<open>The specification's wording of the title extraction\<close>

text \<open>
  The candidates: the spans at the maximum font size, ordered by top coordinate, then left
  coordinate.
\<close>

definition spec_candidates :: "span list \<Rightarrow> span list" where
  "spec_candidates spans =
     sort_key (\<lambda>s. (bbox_top (bbox s), bbox_left (bbox s)))
       (filter (\<lambda>s. font_size s = Max (font_size ` set spans)) spans)"

text \<open>
  The lines: consecutive candidates stay in one line while the gap between the top of a
  candidate and the bottom of the one before it is within the tolerance; a larger gap
  starts a new line.
\<close>

fun gap_groups :: "span list \<Rightarrow> span list list" where
  "gap_groups [] = []"
| "gap_groups [s] = [ [s] ]"
| "gap_groups (s # t # ss) =
     (if \<bar>bbox_top (bbox t) - bbox_bottom (bbox s)\<bar> > VERTICAL_TOLERANCE
      then [s] # gap_groups (t # ss)
      else (case gap_groups (t # ss) of [] \<Rightarrow> [ [s] ] | g # gs \<Rightarrow> (s # g) # gs))"

text \<open>The title: each line space-joined, the lines space-joined.\<close>

definition spec_title_text :: "span list \<Rightarrow> ustring" where
  "spec_title_text cands =
     strip (join [32] (map (\<lambda>g. strip (join [32] (map span_text g))) (gap_groups cands)))"

text \<open>The value of \<open>current_line\<close> after the spans of one line, starting from empty.\<close>

definition line_buffer :: "span list \<Rightarrow> ustring" where
  "line_buffer g = concat (map (\<lambda>s. 32 # span_text s) g)"

section \<open>Example inputs\<close>

definition ex_title :: span where
  "ex_title = \<lparr>span_text = ustr ''Title Text'', font_size = 30, is_bold = True,
                bbox = (72, 72, 300, 102), page = 0\<rparr>"

definition ex_section :: span where
  "ex_section = \<lparr>span_text = ustr ''Section A'', font_size = 20, is_bold = True,
                  bbox = (72, 150, 250, 170), page = 0\<rparr>"

definition ex_note :: span where
  "ex_note = \<lparr>span_text = ustr ''sub note'', font_size = 12, is_bold = False,
               bbox = (72, 200, 200, 212), page = 0\<rparr>"



definition ex_annual :: span where
  "ex_annual = \<lparr>span_text = ustr ''Annual Report'', font_size = 28, is_bold = True,
                 bbox = (72, 10, 300, 24), page = 0\<rparr>"

definition ex_edition :: span where
  "ex_edition = \<lparr>span_text = ustr ''2024 Edition'', font_size = 28, is_bold = False,
                  bbox = (72, 30, 280, 44), page = 0\<rparr>"

definition ex_sbp :: spans_by_page where
  "ex_sbp = [(0, [ex_title, ex_section, ex_note])]"

definition ex_section_heading :: heading where
  "ex_section_heading = \<lparr>level = H1, heading_text = ustr ''Section A'', heading_page = 0\<rparr>"

definition ex_note_heading :: heading where
  "ex_note_heading = \<lparr>level = H2, heading_text = ustr ''sub note'', heading_page = 0\<rparr>"

text \<open>A page with one table and one large fragment next to it, inside the buffer.\<close>

definition ex_table :: table where
  "ex_table = \<lparr>table_bbox = Some (100, 100, 200, 200)\<rparr>"

definition ex_cell :: raw_span where
  "ex_cell = \<lparr>raw_text = ustr ''Big Cell'', raw_size = 40, raw_flags = 2,
               raw_bbox = (20, 92, 98, 99)\<rparr>"

definition ex_doc :: "pdf_page list" where
  "ex_doc =
     [\<lparr>blocks = [\<lparr>block_type = Some 0, block_lines = Some [\<lparr>line_spans = [ex_cell]\<rparr>]\<rparr>],
       tables = [ex_table]\<rparr>]"

section \<open>Font-size thresholds\<close>

lemma counter_keys_fold:
  "distinct ks \<Longrightarrow>
   distinct (fold (\<lambda>x ks. if x \<in> set ks then ks else ks @ [x]) xs ks) \<and>
   set (fold (\<lambda>x ks. if x \<in> set ks then ks else ks @ [x]) xs ks) = set ks \<union> set xs"
  by (induction xs arbitrary: ks) auto

lemma distinct_counter_keys: "distinct (counter_keys xs)"
  using counter_keys_fold [of "[]" xs] by (simp add: counter_keys_def)

lemma set_counter_keys: "set (counter_keys xs) = set xs"
  using counter_keys_fold [of "[]" xs] by (simp add: counter_keys_def)

lemma sorted_sizes_props:
  "distinct (sorted_sizes_of fs) \<and> sorted (rev (sorted_sizes_of fs)) \<and>
   set (sorted_sizes_of fs) = font_size ` set fs"
  by (simp add: sorted_sizes_of_def distinct_counter_keys set_counter_keys)

lemma desc_head:
  assumes "sorted (rev (x # xs))" "distinct (x # xs)"
  shows "Max (insert x (set xs)) = x" and "insert x (set xs) - {x} = set xs"
    and "\<forall>y\<in>set xs. y < x" and "sorted (rev xs)" and "distinct xs"
proof -
  from assms have le: "\<forall>y\<in>set xs. y \<le> x"
    by (auto simp: sorted_append)
  with assms show lt: "\<forall>y\<in>set xs. y < x" by (auto simp: less_le)
  from le show "Max (insert x (set xs)) = x"
    by (intro Max_eqI) auto
  from assms show "insert x (set xs) - {x} = set xs" by auto
  from assms show "sorted (rev xs)" by (simp add: sorted_append)
  from assms show "distinct xs" by simp
qed

lemma desc_list_thresholds:
  assumes "sorted (rev d)" "distinct d" "d \<noteq> []"
  shows "(let h1 = (if length d > 0 then d ! 0 else 0);
              h2 = (if length d > 1 then d ! 1 else h1 - 1);
              h3 = (if length d > 2 then d ! 2 else h2 - 1) in (h1, h2, h3))
         = spec_thresholds (set d)"
proof -
  from assms(3) obtain a r where d1: "d = a # r" by (cases d) auto
  from assms have sa: "sorted (rev (a # r))" and da: "distinct (a # r)"
    unfolding d1 by blast+
  note A = desc_head [OF sa da]
  show ?thesis
  proof (cases r)
    case Nil
    then show ?thesis
      unfolding d1 spec_thresholds_def by simp
  next
    case (Cons b r2)
    from A(4,5) have sb: "sorted (rev (b # r2))" and db: "distinct (b # r2)"
      unfolding Cons by blast+
    note B = desc_head [OF sb db]
    have ab: "a \<noteq> b" using da unfolding Cons by simp
    have Sa: "insert a (insert b (set r2)) - {a} = insert b (set r2)"
      using A(2) unfolding Cons by simp
    show ?thesis
    proof (cases r2)
      case Nil
      have m1: "Max {a, b} = a" using A(1) unfolding Cons Nil by simp
      have m2: "{a, b} - {a} = {b}" using ab by auto
      show ?thesis
        unfolding d1 Cons Nil spec_thresholds_def using ab by (simp add: m1 m2 Let_def)
    next
      case Cons2: (Cons c r3)
      have m1: "Max (insert a (insert b (set r2))) = a" using A(1) unfolding Cons by simp
      have m2: "Max (insert b (set r2)) = b" by (rule B(1))
      have Sb: "insert a (insert b (set r2)) - {a, b} = set r2"
      proof -
        have "insert a (insert b (set r2)) - {a, b} = (insert a (insert b (set r2)) - {a}) - {b}"
          by auto
        also have "\<dots> = set r2" unfolding Sa by (rule B(2))
        finally show ?thesis .
      qed
      from B(4,5) have sc: "sorted (rev (c # r3))" and dc: "distinct (c # r3)"
        unfolding Cons2 by blast+
      have m3: "Max (set r2) = c" using desc_head(1) [OF sc dc] unfolding Cons2 by simp
      have card3: "3 \<le> card (insert a (insert b (set r2)))"
      proof -
        have "card (set (a # b # c # r3)) = length (a # b # c # r3)"
          by (rule distinct_card) (use da Cons Cons2 in simp)
        then show ?thesis unfolding Cons2 by simp
      qed
      have r2ne: "r2 \<noteq> []" "r2 ! 0 = c" unfolding Cons2 by simp_all
      show ?thesis
        unfolding d1 Cons spec_thresholds_def
        using card3 r2ne by (simp add: m1 m2 m3 Sa Sb Let_def)
    qed
  qed
qed


lemma size_thresholds_char:
  assumes "fs \<noteq> []"
  shows "size_thresholds fs = spec_thresholds (font_size ` set fs)"
proof -
  have ne: "sorted_sizes_of fs \<noteq> []"
    using sorted_sizes_props [of fs] assms by auto
  have "size_thresholds fs = spec_thresholds (set (sorted_sizes_of fs))"
    unfolding size_thresholds_def
    using desc_list_thresholds [of "sorted_sizes_of fs"] sorted_sizes_props [of fs] ne
    by simp
  then show ?thesis using sorted_sizes_props [of fs] by simp
qed

lemma spec_thresholds_decreasing:
  assumes "finite S" "S \<noteq> {}" "spec_thresholds S = (h1, h2, h3)"
  shows "h2 < h1 \<and> h3 < h2"
proof -
  have h1: "h1 = Max S" using assms(3) by (simp add: spec_thresholds_def Let_def)
  have h2: "h2 = (if 2 \<le> card S then Max (S - {h1}) else h1 - 1)"
    using assms(3) by (auto simp: spec_thresholds_def Let_def)
  have h3: "h3 = (if 3 \<le> card S then Max (S - {h1, h2}) else h2 - 1)"
    using assms(3) by (auto simp: spec_thresholds_def Let_def)
  have h1S: "h1 \<in> S" unfolding h1 using assms by (intro Max_in)
  have lt1: "h2 < h1"
  proof (cases "2 \<le> card S")
    case True
    have ne: "S - {h1} \<noteq> {}"
    proof
      assume "S - {h1} = {}"
      then have "S \<subseteq> {h1}" by auto
      then have "card S \<le> card {h1}" by (intro card_mono) auto
      with True show False by simp
    qed
    then have "Max (S - {h1}) \<in> S - {h1}" using assms(1) by (intro Max_in) auto
    then have "Max (S - {h1}) \<in> S" "Max (S - {h1}) \<noteq> h1" by auto
    then have "Max (S - {h1}) < h1" unfolding h1 using assms(1) by (simp add: less_le)
    with True show ?thesis unfolding h2 by simp
  next
    case False
    then show ?thesis unfolding h2 by simp
  qed
  have lt2: "h3 < h2"
  proof (cases "3 \<le> card S")
    case True
    then have two: "2 \<le> card S" by simp
    have h2': "h2 = Max (S - {h1})" using two h2 by simp
    have "card (S - {h1}) = card S - 1" using h1S assms(1) by simp
    with True have c2: "2 \<le> card (S - {h1})" by simp
    have ne1: "S - {h1} \<noteq> {}"
    proof
      assume "S - {h1} = {}"
      then have "card (S - {h1}) = 0" by (simp only: card.empty)
      with c2 show False by simp
    qed
    have h2S: "h2 \<in> S - {h1}" unfolding h2' using assms(1) ne1 by (intro Max_in) auto
    have "card (S - {h1} - {h2}) = card (S - {h1}) - 1" using h2S assms(1) by simp
    with c2 have c3: "1 \<le> card (S - {h1} - {h2})" by simp
    have ne2: "S - {h1} - {h2} \<noteq> {}"
    proof
      assume "S - {h1} - {h2} = {}"
      then have "card (S - {h1} - {h2}) = 0" by (simp only: card.empty)
      with c3 show False by simp
    qed
    have eq: "S - {h1, h2} = S - {h1} - {h2}" by auto
    have "Max (S - {h1, h2}) \<in> S - {h1, h2}"
      using assms(1) ne2 unfolding eq by (intro Max_in) auto
    then have "Max (S - {h1, h2}) \<in> S - {h1}" "Max (S - {h1, h2}) \<noteq> h2" by auto
    then have "Max (S - {h1, h2}) < h2" unfolding h2' using assms(1) by (simp add: less_le)
    with True show ?thesis unfolding h3 by simp
  next
    case False
    then show ?thesis unfolding h3 by simp
  qed
  from lt1 lt2 show ?thesis by simp
qed

section \<open>Duplicate removal\<close>

lemma keep_first_filter: "keep_first (filter P xs) = filter P (keep_first xs)"
proof (induction xs)
  case Nil
  show ?case by simp
next
  case (Cons x xs)
  show ?case
  proof (cases "P x")
    case True
    then show ?thesis using Cons by (simp add: conj_commute)
  next
    case False
    have "filter P (filter (\<lambda>y. y \<noteq> x) (keep_first xs)) = filter P (keep_first xs)"
      using False by (auto intro: filter_cong)
    with False Cons show ?thesis by simp
  qed
qed

lemma set_keep_first: "set (keep_first xs) = set xs"
  by (induction xs) auto

lemma distinct_keep_first: "distinct (keep_first xs)"
  by (induction xs) (auto simp: set_keep_first)

lemma heading_key_inj: "heading_key h = heading_key h' \<longleftrightarrow> h = h'"
  by (cases h, cases h') (simp add: heading_key_def)

lemma dedup_step_key:
  "dedup_step h (heading_key ` set u, u) =
     (if h \<in> set u then (heading_key ` set u, u)
      else (heading_key ` set (u @ [h]), u @ [h]))"
proof -
  have "(heading_key h \<in> heading_key ` set u) = (h \<in> set u)"
    by (auto simp: heading_key_inj)
  then show ?thesis
    by (simp add: dedup_step_def Let_def)
qed

lemma fold_dedup_step:
  "fold dedup_step hs (heading_key ` set u, u) =
     (heading_key ` (set u \<union> set hs), u @ keep_first (filter (\<lambda>h. h \<notin> set u) hs))"
proof (induction hs arbitrary: u)
  case Nil
  show ?case by simp
next
  case (Cons h hs)
  show ?case
  proof (cases "h \<in> set u")
    case True
    then have "insert h (set u \<union> set hs) = set u \<union> set hs" by auto
    with True show ?thesis
      using Cons [of u] by (simp add: dedup_step_key)
  next
    case False
    have f: "filter (\<lambda>x. x \<noteq> h \<and> x \<notin> set u) hs = filter (\<lambda>x. x \<notin> set u \<and> x \<noteq> h) hs"
      by (auto intro: filter_cong)
    have "fold dedup_step (h # hs) (heading_key ` set u, u) =
          fold dedup_step hs (heading_key ` set (u @ [h]), u @ [h])"
      using False by (simp add: dedup_step_key)
    also have "\<dots> = (heading_key ` (set (u @ [h]) \<union> set hs),
                      (u @ [h]) @ keep_first (filter (\<lambda>x. x \<notin> set (u @ [h])) hs))"
      by (rule Cons)
    finally show ?thesis
      using False by (simp add: keep_first_filter [symmetric] f)
  qed
qed

lemma remove_duplicates_keep_first: "remove_duplicates hs = keep_first hs"
  using fold_dedup_step [of hs "[]"] by (simp add: remove_duplicates_def)

section \<open>Heading levels and the order of the outline\<close>

lemma set_map_filter: "set (List.map_filter f xs) = {y. \<exists>x\<in>set xs. f x = Some y}"
  by (induction xs) (auto simp: List.map_filter_simps split: option.splits)

lemma set_sort_headings: "set (sort_headings hs) = set hs"
  by (simp add: sort_headings_def)

lemma assign_heading_levels_eq:
  "assign_heading_levels L sbp ts =
     sort_headings (keep_first (raw_headings L (filter_title sbp ts)))"
  by (simp add: assign_heading_levels_def Let_def remove_duplicates_keep_first
      raw_headings_def sort_headings_def List.map_filter_simps)

lemma set_assign_heading_levels:
  "set (assign_heading_levels L sbp ts) =
     {h. \<exists>s\<in>set (filter_title sbp ts).
           heading_of L (size_thresholds (filter_title sbp ts)) s = Some h}"
  by (simp add: assign_heading_levels_eq set_sort_headings set_keep_first raw_headings_def
      set_map_filter)

lemma sorted_sizes_strict: "sorted_wrt (\<lambda>x y. y < x) (sorted_sizes_of fs)"
proof -
  have "sorted_wrt (<) (rev (sorted_sizes_of fs))"
    using sorted_sizes_props [of fs] by (simp add: strict_sorted_iff)
  then show ?thesis by (simp add: sorted_wrt_rev)
qed

text \<open>
  C2: the list of sizes that the thresholds are read from is the distinct font sizes of
  the spans left after the title exclusion, in strictly descending order, and the three
  thresholds are the spec's: largest, second largest or H1 minus 1, third largest or H2
  minus 1.
\<close>

theorem thresholds_follow_spec:
  assumes "filter_title sbp ts \<noteq> []"
  shows "sorted_wrt (\<lambda>x y. y < x) (sorted_sizes_of (filter_title sbp ts)) \<and>
         set (sorted_sizes_of (filter_title sbp ts)) = font_size ` set (filter_title sbp ts) \<and>
         size_thresholds (filter_title sbp ts) =
           spec_thresholds (font_size ` set (filter_title sbp ts))"
  using assms sorted_sizes_strict sorted_sizes_props size_thresholds_char by blast

lemma thresholds_decreasing:
  assumes "fs \<noteq> []" "size_thresholds fs = (h1, h2, h3)"
  shows "h2 < h1" "h3 < h2"
proof -
  have "spec_thresholds (font_size ` set fs) = (h1, h2, h3)"
    using assms size_thresholds_char by simp
  moreover have "finite (font_size ` set fs)" "font_size ` set fs \<noteq> {}"
    using assms(1) by simp_all
  ultimately have "h2 < h1 \<and> h3 < h2" by (rule spec_thresholds_decreasing [rotated 2])
  then show "h2 < h1" "h3 < h2" by simp_all
qed

lemma level_of_cases:
  assumes "h2 < h1" "h3 < h2"
  shows "(level_of (h1, h2, h3) s = Some H1 \<longleftrightarrow> font_size s = h1 \<and> is_bold s) \<and>
         (level_of (h1, h2, h3) s = Some H2 \<longleftrightarrow> font_size s = h2) \<and>
         (level_of (h1, h2, h3) s = Some H3 \<longleftrightarrow> font_size s = h3) \<and>
         (level_of (h1, h2, h3) s = None \<longleftrightarrow>
            \<not> (font_size s = h1 \<and> is_bold s) \<and> font_size s \<noteq> h2 \<and> font_size s \<noteq> h3)"
  using assms by (auto simp: level_of_def)

lemma heading_of_Some:
  "heading_of L th s = Some h \<longleftrightarrow>
     level_of th s = Some (level h) \<and> is_valid_heading L (span_text s) \<and>
     heading_text h = span_text s \<and> heading_page h = page s"
  by (cases h) (auto simp: heading_of_def split: option.splits)

text \<open>
  C3: for a span \<open>s\<close> left after the title exclusion, with the thresholds of the call:
  \<open>s\<close> gets H1 exactly when its size is the H1 size and it is bold, H2 exactly when its
  size is the H2 size, H3 exactly when its size is the H3 size, and no level otherwise;
  a span with no level yields no heading, and the headings returned are exactly those of
  the spans that got a level and whose text the validator accepts.
\<close>

theorem level_assignment_rule:
  assumes "s \<in> set (filter_title sbp ts)"
    and "size_thresholds (filter_title sbp ts) = (h1, h2, h3)"
  shows "(level_of (h1, h2, h3) s = Some H1 \<longleftrightarrow> font_size s = h1 \<and> is_bold s) \<and>
         (level_of (h1, h2, h3) s = Some H2 \<longleftrightarrow> font_size s = h2) \<and>
         (level_of (h1, h2, h3) s = Some H3 \<longleftrightarrow> font_size s = h3) \<and>
         (level_of (h1, h2, h3) s = None \<longleftrightarrow>
            \<not> (font_size s = h1 \<and> is_bold s) \<and> font_size s \<noteq> h2 \<and> font_size s \<noteq> h3) \<and>
         (level_of (h1, h2, h3) s = None \<longrightarrow> heading_of L (h1, h2, h3) s = None) \<and>
         set (assign_heading_levels L sbp ts) =
           {h. \<exists>s'\<in>set (filter_title sbp ts).
                 level_of (h1, h2, h3) s' = Some (level h) \<and>
                 is_valid_heading L (span_text s') \<and>
                 heading_text h = span_text s' \<and> heading_page h = page s'}"
proof -
  from assms(1) have ne: "filter_title sbp ts \<noteq> []" by auto
  note d = thresholds_decreasing [OF ne assms(2)]
  have "level_of (h1, h2, h3) s = None \<longrightarrow> heading_of L (h1, h2, h3) s = None"
    by (simp add: heading_of_def)
  moreover have "set (assign_heading_levels L sbp ts) =
           {h. \<exists>s'\<in>set (filter_title sbp ts).
                 level_of (h1, h2, h3) s' = Some (level h) \<and>
                 is_valid_heading L (span_text s') \<and>
                 heading_text h = span_text s' \<and> heading_page h = page s'}"
    by (simp add: set_assign_heading_levels assms(2) heading_of_Some)
  ultimately show ?thesis
    using level_of_cases [OF d, of s] by blast
qed

text \<open>
  C10: when the spans left after the title exclusion have exactly one distinct font size
  and none of them is bold, \<open>assign_heading_levels\<close> returns the empty list.
\<close>

theorem single_size_no_bold_no_headings:
  assumes "card (font_size ` set (filter_title sbp ts)) = 1"
    and "\<forall>s\<in>set (filter_title sbp ts). \<not> is_bold s"
  shows "assign_heading_levels L sbp ts = []"
proof -
  define fs where "fs = filter_title sbp ts"
  from assms(1) obtain m where S: "font_size ` set fs = {m}"
    unfolding fs_def by (auto simp: card_1_singleton_iff)
  then have ne: "fs \<noteq> []" by auto
  have th: "size_thresholds fs = (m, m - 1, m - 1 - 1)"
    by (simp add: size_thresholds_char [OF ne] S spec_thresholds_def)
  have "level_of (m, m - 1, m - 1 - 1) s = None" if "s \<in> set fs" for s
  proof -
    from that S have "font_size s = m" by auto
    moreover from that assms(2) have "\<not> is_bold s" by (simp add: fs_def)
    ultimately show ?thesis by (simp add: level_of_def)
  qed
  then have "set (assign_heading_levels L sbp ts) = {}"
    by (simp add: set_assign_heading_levels fs_def [symmetric] th heading_of_def)
  then show ?thesis by simp
qed

lemma mset_sort_headings: "mset (sort_headings hs) = mset hs"
  by (simp add: sort_headings_def)

lemma sorted_sort_headings:
  "sorted_wrt (\<lambda>a b. heading_page a < heading_page b \<or>
       heading_page a = heading_page b \<and> level_rank (level a) \<le> level_rank (level b))
     (sort_headings hs)"
proof -
  have "sorted (map (\<lambda>x. (heading_page x, level_rank (level x))) (sort_headings hs))"
    by (simp add: sort_headings_def)
  then have "sorted_wrt (\<lambda>a b. (heading_page a, level_rank (level a))
                 \<le> (heading_page b, level_rank (level b))) (sort_headings hs)"
    by (simp add: sorted_map)
  then show ?thesis
    by (rule sorted_wrt_mono_rel [rotated]) (auto simp: less_eq_prod_def)
qed

text \<open>
  C5: the list that \<open>assign_heading_levels\<close> returns has no two entries with the same
  (level, text, page); the duplicate removal keeps the first occurrences of the headings
  in the order before the sort; the result is a permutation of them, ordered by page and,
  on one page, by level rank; entries with equal page and level keep the order they had
  before the sort.
\<close>

theorem outline_unique_and_sorted:
  "distinct (map heading_key (assign_heading_levels L sbp ts)) \<and>
   remove_duplicates (raw_headings L (filter_title sbp ts)) =
     keep_first (raw_headings L (filter_title sbp ts)) \<and>
   mset (assign_heading_levels L sbp ts) =
     mset (keep_first (raw_headings L (filter_title sbp ts))) \<and>
   sorted_wrt (\<lambda>a b. heading_page a < heading_page b \<or>
       heading_page a = heading_page b \<and> level_rank (level a) \<le> level_rank (level b))
     (assign_heading_levels L sbp ts) \<and>
   filter (\<lambda>h. heading_page h = p \<and> level h = l) (assign_heading_levels L sbp ts) =
     filter (\<lambda>h. heading_page h = p \<and> level h = l)
       (keep_first (raw_headings L (filter_title sbp ts)))"
proof -
  define ks where "ks = keep_first (raw_headings L (filter_title sbp ts))"
  have out: "assign_heading_levels L sbp ts = sort_headings ks"
    by (simp add: assign_heading_levels_eq ks_def)
  have "distinct (sort_headings ks)"
    using distinct_keep_first [of "raw_headings L (filter_title sbp ts)"]
    by (simp add: sort_headings_def ks_def)
  then have 1: "distinct (map heading_key (sort_headings ks))"
    by (simp add: distinct_map inj_on_def heading_key_inj)
  have inj: "(level_rank a = level_rank b) = (a = b)" for a b
    by (cases a; cases b) simp_all
  have "filter (\<lambda>h. (heading_page h, level_rank (level h)) = (p, level_rank l)) (sort_headings ks)
      = filter (\<lambda>h. (heading_page h, level_rank (level h)) = (p, level_rank l)) ks"
    unfolding sort_headings_def by (rule sort_key_stable)
  then have 5: "filter (\<lambda>h. heading_page h = p \<and> level h = l) (sort_headings ks) =
     filter (\<lambda>h. heading_page h = p \<and> level h = l) ks"
    by (simp add: inj)
  show ?thesis
    unfolding out ks_def [symmetric]
    using 1 5 sorted_sort_headings [of ks] mset_sort_headings [of ks]
      remove_duplicates_keep_first [of "raw_headings L (filter_title sbp ts)"]
    unfolding ks_def [symmetric] by blast
qed

lemma filter_title_texts: "s \<in> set (filter_title sbp ts) \<Longrightarrow> span_text s \<notin> span_text ` set ts"
  by (simp add: filter_title_def)

text \<open>
  C6: the text of every heading of the outline that the pipeline builds is accepted by
  \<open>is_valid_heading\<close> and is not the text of any span of the extracted title.
\<close>

theorem headings_valid_and_not_title:
  assumes "h \<in> set (snd (build_outline L sbp))"
  shows "is_valid_heading L (heading_text h) \<and>
         heading_text h \<notin> span_text ` set (snd (fst (extract_title L (get_page0 sbp))))"
proof -
  obtain title ts after where et: "extract_title L (get_page0 sbp) = ((title, ts), after)"
    by (metis prod.collapse)
  from assms have "h \<in> set (assign_heading_levels L (set_page0 sbp after) ts)"
    by (simp add: build_outline_def et)
  then obtain s where s: "s \<in> set (filter_title (set_page0 sbp after) ts)"
    and hs: "heading_of L (size_thresholds (filter_title (set_page0 sbp after) ts)) s = Some h"
    by (auto simp: set_assign_heading_levels)
  from hs have "is_valid_heading L (heading_text h)" "heading_text h = span_text s"
    by (simp_all add: heading_of_Some)
  with filter_title_texts [OF s] show ?thesis by (simp add: et)
qed

section \<open>The validator on a text whose first character decides\<close>

lemma dropWhile_snoc_keep: "\<not> P c \<Longrightarrow> \<exists>ys. dropWhile P (xs @ [c]) = ys @ [c]"
  by (induction xs) auto

lemma strip_Cons_nonspace:
  assumes "\<not> py_isspace c"
  shows "\<exists>cs'. strip (c # cs) = c # cs'"
proof -
  from dropWhile_snoc_keep [of py_isspace c "rev cs", OF assms]
  obtain ys where ys: "dropWhile py_isspace (rev cs @ [c]) = ys @ [c]" ..
  have "strip (c # cs) = rev (dropWhile py_isspace (rev cs @ [c]))"
    using assms by (simp add: strip_def)
  also have "\<dots> = c # rev ys" unfolding ys by simp
  finally show ?thesis by blast
qed

lemma rx_date_first:
  assumes "\<not> isdecimal L c"
  shows "\<not> re_match L ic rx_date (c # cs)"
  using assms by (simp add: re_match_def rx_date_def)


lemma strip_id:
  assumes "s \<noteq> []" "\<not> py_isspace (hd s)" "\<not> py_isspace (last s)"
  shows "strip s = s"
proof -
  from assms have 1: "dropWhile py_isspace s = s"
    by (cases s) simp_all
  from assms have "dropWhile py_isspace (rev s) = rev s"
    by (cases "rev s") (simp_all add: hd_rev [symmetric])
  with 1 show ?thesis by (simp add: strip_def)
qed

lemma rx_stamp_first:
  assumes "\<not> ignorecase_eq L 80 c" "\<not> ignorecase_eq L 77 c" "\<not> ignorecase_eq L 86 c"
  shows "\<not> re_match L True rx_stamp (c # cs)"
  using assms by (simp add: re_match_def rx_stamp_def lits_def)

lemma rx_clock_first:
  assumes "\<not> isdecimal L c"
  shows "\<not> re_match L ic rx_clock (c # cs)"
  using assms by (simp add: re_match_def rx_clock_def)

lemma rx_symbols_first:
  assumes "isalnum L c" "c \<noteq> 95"
  shows "\<not> re_match L False rx_symbols (c # cs)"
  using assms by (simp add: re_match_def rx_symbols_def)

lemma is_valid_heading_first_char:
  assumes t: "normalize_text L s = c # cs" and "cs \<noteq> []"
    and "length (c # cs) \<le> MAX_HEADING_CHARS"
    and "\<not> list_all (\<lambda>x. x \<in> set filler_chars) (c # cs)"
    and "\<not> py_isspace c"
    and "\<not> ignorecase_eq L 80 c" "\<not> ignorecase_eq L 77 c" "\<not> ignorecase_eq L 86 c"
    and "\<not> isdecimal L c"
  shows "is_valid_heading L s"
proof -
  from assms(5) obtain cs' where st: "strip (c # cs) = c # cs'"
    using strip_Cons_nonspace by blast
  have 1: "\<not> re_match L True rx_stamp (strip (c # cs))"
    unfolding st using assms(6-8) by (rule rx_stamp_first)
  have 2: "\<not> re_match L True rx_clock (c # cs)" using assms(9) by (rule rx_clock_first)
  have 3: "\<not> re_match L False rx_date (c # cs)" using assms(9) by (rule rx_date_first)
  have 4: "\<not> length (c # cs) < MIN_HEADING_LEN"
    using assms(2) by (cases cs) (simp_all add: MIN_HEADING_LEN_def)
  have 5: "\<not> length (c # cs) > MAX_HEADING_CHARS" using assms(3) by simp
  show ?thesis
    unfolding is_valid_heading_def t Let_def
    using 1 2 3 4 5 assms(4) by (simp only: if_False list.distinct simp_thms)
qed

lemma valid_ascii_text:
  assumes ac: "ascii_conformant L"
    and asc: "list_all (\<lambda>x. x < 128) (c # cs)" and "cs \<noteq> []"
    and "length (c # cs) \<le> MAX_HEADING_CHARS"
    and "c \<notin> set filler_chars" and "\<not> py_isspace c" and "\<not> py_isspace (last (c # cs))"
    and "\<not> ascii_digit c" and "ascii_lower c \<noteq> 112" "ascii_lower c \<noteq> 109"
      "ascii_lower c \<noteq> 118"
  shows "is_valid_heading L (c # cs)"
proof -
  from asc have c: "c < 128" by simp
  have "strip (c # cs) = c # cs"
    using assms(6,7) by (intro strip_id) simp_all
  then have n: "normalize_text L (c # cs) = c # cs"
    using ac asc by (simp add: normalize_text_def ascii_conformant_def)
  have ic: "ignorecase_eq L p c = (ascii_lower p = ascii_lower c)" if "p < 128" for p
    using ac c that by (simp add: ascii_conformant_def)
  have d: "\<not> isdecimal L c" using ac c assms(8) by (simp add: ascii_conformant_def)
  show ?thesis
    using n assms(3,4) _ assms(6)
  proof (rule is_valid_heading_first_char)
    show "\<not> list_all (\<lambda>x. x \<in> set filler_chars) (c # cs)" using assms(5) by simp
    show "\<not> ignorecase_eq L 80 c" using assms(9) by (simp add: ic ascii_lower_def)
    show "\<not> ignorecase_eq L 77 c" using assms(10) by (simp add: ic ascii_lower_def)
    show "\<not> ignorecase_eq L 86 c" using assms(11) by (simp add: ic ascii_lower_def)
    show "\<not> isdecimal L c" by (rule d)
  qed
qed

lemma valid_Section_A: "ascii_conformant L \<Longrightarrow> is_valid_heading L (ustr ''Section A'')"
  unfolding ustr_def
  by (simp, rule valid_ascii_text)
     (simp_all add: MAX_HEADING_CHARS_def filler_chars_def py_isspace_def ascii_digit_def ascii_lower_def)

lemma valid_sub_note: "ascii_conformant L \<Longrightarrow> is_valid_heading L (ustr ''sub note'')"
  unfolding ustr_def
  by (simp, rule valid_ascii_text)
     (simp_all add: MAX_HEADING_CHARS_def filler_chars_def py_isspace_def ascii_digit_def ascii_lower_def)

section \<open>The end-to-end example\<close>

lemma ustr_Title: "ustr ''Title Text'' = [84, 105, 116, 108, 101, 32, 84, 101, 120, 116]"
  by (simp add: ustr_def)

lemma ustr_Section: "ustr ''Section A'' = [83, 101, 99, 116, 105, 111, 110, 32, 65]"
  by (simp add: ustr_def)

lemma ustr_note: "ustr ''sub note'' = [115, 117, 98, 32, 110, 111, 116, 101]"
  by (simp add: ustr_def)

lemma example_title:
  assumes ac: "ascii_conformant L"
    and T: "T = \<lparr>span_text = ustr ''Title Text'', font_size = 30, is_bold = True, bbox = b1, page = 0\<rparr>"
    and A: "A = \<lparr>span_text = ustr ''Section A'', font_size = 20, is_bold = True, bbox = b2, page = 0\<rparr>"
    and N: "N = \<lparr>span_text = ustr ''sub note'', font_size = 12, is_bold = False, bbox = b3, page = 0\<rparr>"
  shows "extract_title L [T, A, N] = ((ustr ''Title Text'', [T]), [T, A, N])"
proof -
  have srt: "sort_key (\<lambda>s. (- font_size s, bbox_top (bbox s))) [T, A, N] = [T, A, N]"
    by (simp add: T A N)
  have ts: "sort_key (\<lambda>s. (bbox_top (bbox s), bbox_left (bbox s)))
               (filter (\<lambda>s. font_size s = font_size (hd [T, A, N])) [T, A, N]) = [T]"
    by (simp add: T A N)
  have ln: "title_lines_of [T] = [ustr ''Title Text'']"
    by (simp add: title_lines_of_def T ustr_Title strip_def py_isspace_def)
  have st: "strip (ustr ''Title Text'') = ustr ''Title Text''"
    by (simp add: ustr_Title strip_def py_isspace_def)
  have "isalnum L 84" using ac by (simp add: ascii_conformant_def ascii_alnum_def)
  then have sy: "\<not> re_match L False rx_symbols (ustr ''Title Text'')"
    unfolding ustr_Title by (intro rx_symbols_first) simp_all
  have len: "\<not> length (ustr ''Title Text'') < MIN_HEADING_LEN" "ustr ''Title Text'' \<noteq> []"
    by (simp_all add: ustr_Title MIN_HEADING_LEN_def)
  show ?thesis
    unfolding extract_title_def Let_def srt ts ln
    using sy len by (simp add: st)
qed


lemma example_outline:
  assumes ac: "ascii_conformant L"
    and T: "T = \<lparr>span_text = ustr ''Title Text'', font_size = 30, is_bold = True, bbox = b1, page = 0\<rparr>"
    and A: "A = \<lparr>span_text = ustr ''Section A'', font_size = 20, is_bold = True, bbox = b2, page = 0\<rparr>"
    and N: "N = \<lparr>span_text = ustr ''sub note'', font_size = 12, is_bold = False, bbox = b3, page = 0\<rparr>"
  shows "assign_heading_levels L [(0, [T, A, N])] [T] =
     [\<lparr>level = H1, heading_text = ustr ''Section A'', heading_page = 0\<rparr>,
      \<lparr>level = H2, heading_text = ustr ''sub note'', heading_page = 0\<rparr>]"
proof -
  have ft: "filter_title [(0, [T, A, N])] [T] = [A, N]"
    by (simp add: filter_title_def T A N ustr_Title ustr_Section ustr_note)
  have ss: "sorted_sizes_of [A, N] = [20, 12]"
    by (simp add: sorted_sizes_of_def counter_keys_def A N)
  have th: "size_thresholds [A, N] = (20, 12, 11)"
    by (simp add: size_thresholds_def ss)
  have hA: "heading_of L (20, 12, 11) A =
      Some \<lparr>level = H1, heading_text = ustr ''Section A'', heading_page = 0\<rparr>"
    using valid_Section_A [OF ac] by (simp add: heading_of_def level_of_def A)
  have hN: "heading_of L (20, 12, 11) N =
      Some \<lparr>level = H2, heading_text = ustr ''sub note'', heading_page = 0\<rparr>"
    using valid_sub_note [OF ac] by (simp add: heading_of_def level_of_def N)
  have raw: "raw_headings L [A, N] =
     [\<lparr>level = H1, heading_text = ustr ''Section A'', heading_page = 0\<rparr>,
      \<lparr>level = H2, heading_text = ustr ''sub note'', heading_page = 0\<rparr>]"
    by (simp add: raw_headings_def th List.map_filter_simps hA hN)
  show ?thesis
    unfolding assign_heading_levels_eq ft raw
    by (simp add: sort_headings_def)
qed

lemma example_pipeline:
  assumes ac: "ascii_conformant L"
    and T: "T = \<lparr>span_text = ustr ''Title Text'', font_size = 30, is_bold = True, bbox = b1, page = 0\<rparr>"
    and A: "A = \<lparr>span_text = ustr ''Section A'', font_size = 20, is_bold = True, bbox = b2, page = 0\<rparr>"
    and N: "N = \<lparr>span_text = ustr ''sub note'', font_size = 12, is_bold = False, bbox = b3, page = 0\<rparr>"
  shows "build_outline L [(0, [T, A, N])] =
     (ustr ''Title Text'',
      [\<lparr>level = H1, heading_text = ustr ''Section A'', heading_page = 0\<rparr>,
       \<lparr>level = H2, heading_text = ustr ''sub note'', heading_page = 0\<rparr>])"
  unfolding build_outline_def
  by (simp add: get_page0_def set_page0_def example_title [OF ac T A N]
      example_outline [OF ac T A N])

lemma ascii_library_conformant: "ascii_conformant ascii_library"
  by (simp add: ascii_conformant_def ascii_library_def)

lemma ex_pipeline:
  "ascii_conformant L \<Longrightarrow>
   build_outline L ex_sbp = (ustr ''Title Text'', [ex_section_heading, ex_note_heading])"
  unfolding ex_sbp_def ex_section_heading_def ex_note_heading_def
  by (rule example_pipeline [OF _ ex_title_def ex_section_def ex_note_def])

lemma ex_filter_title: "filter_title ex_sbp [ex_title] = [ex_section, ex_note]"
  by (simp add: ex_sbp_def filter_title_def ex_title_def ex_section_def ex_note_def
      ustr_Title ustr_Section ustr_note)

lemma ex_thresholds: "size_thresholds [ex_section, ex_note] = (20, 12, 11)"
  by (simp add: size_thresholds_def sorted_sizes_of_def counter_keys_def ex_section_def
      ex_note_def)

text \<open>
  C1, as amended: for the page-0 spans "Title Text" (size 30, bold), "Section A" (size 20,
  bold) and "sub note" (size 12, not bold), whatever their boxes, the pipeline returns the
  title "Title Text" and the outline H1 "Section A", H2 "sub note", both on page 0. The
  size-12 span is not dropped: with the title excluded, 12 is the second largest size.
\<close>

theorem end_to_end_example:
  assumes "ascii_conformant L"
  shows "build_outline L
           [(0, [\<lparr>span_text = ustr ''Title Text'', font_size = 30, is_bold = True,
                   bbox = b1, page = 0\<rparr>,
                 \<lparr>span_text = ustr ''Section A'', font_size = 20, is_bold = True,
                   bbox = b2, page = 0\<rparr>,
                 \<lparr>span_text = ustr ''sub note'', font_size = 12, is_bold = False,
                   bbox = b3, page = 0\<rparr>])] =
         (ustr ''Title Text'',
          [\<lparr>level = H1, heading_text = ustr ''Section A'', heading_page = 0\<rparr>,
           \<lparr>level = H2, heading_text = ustr ''sub note'', heading_page = 0\<rparr>])"
  using assms by (rule example_pipeline) (rule refl)+

theorem end_to_end_example_witness:
  "ascii_conformant ascii_library \<and>
   build_outline ascii_library ex_sbp =
     (ustr ''Title Text'', [ex_section_heading, ex_note_heading])"
  using end_to_end_example [OF ascii_library_conformant,
      of "(72, 72, 300, 102)" "(72, 150, 250, 170)" "(72, 200, 200, 212)"]
    ascii_library_conformant
  by (simp add: ex_sbp_def ex_title_def ex_section_def ex_note_def ex_section_heading_def
      ex_note_heading_def)

text \<open>
  C1 as stated fails: on the example the outline is not the single heading H1
  "Section A".
\<close>

theorem end_to_end_example_counterexample:
  "snd (build_outline ascii_library ex_sbp) \<noteq> [ex_section_heading]"
  by (simp add: ex_pipeline [OF ascii_library_conformant])

section \<open>The heading-level theorems on the example\<close>

theorem thresholds_follow_spec_witness:
  "filter_title ex_sbp [ex_title] \<noteq> [] \<and>
   size_thresholds (filter_title ex_sbp [ex_title]) =
     spec_thresholds (font_size ` set (filter_title ex_sbp [ex_title])) \<and>
   size_thresholds (filter_title ex_sbp [ex_title]) = (20, 12, 11)"
proof -
  have ne: "filter_title ex_sbp [ex_title] \<noteq> []" by (simp add: ex_filter_title)
  from thresholds_follow_spec [OF ne] ne show ?thesis
    by (simp add: ex_filter_title ex_thresholds)
qed

theorem level_assignment_rule_witness:
  "ex_note \<in> set (filter_title ex_sbp [ex_title]) \<and>
   size_thresholds (filter_title ex_sbp [ex_title]) = (20, 12, 11) \<and>
   (level_of (20, 12, 11) ex_note = Some H2 \<longleftrightarrow> font_size ex_note = 12) \<and>
   (level_of (20, 12, 11) ex_note = Some H1 \<longleftrightarrow> font_size ex_note = 20 \<and> is_bold ex_note)"
proof -
  have 1: "ex_note \<in> set (filter_title ex_sbp [ex_title])" by (simp add: ex_filter_title)
  have 2: "size_thresholds (filter_title ex_sbp [ex_title]) = (20, 12, 11)"
    by (simp add: ex_filter_title ex_thresholds)
  from level_assignment_rule [OF 1 2] 1 2 show ?thesis by blast
qed

theorem single_size_no_bold_no_headings_witness:
  "card (font_size ` set (filter_title [(0, [ex_note])] [])) = 1 \<and>
   list_all (\<lambda>s. \<not> is_bold s) (filter_title [(0, [ex_note])] []) \<and>
   assign_heading_levels ascii_library [(0, [ex_note])] [] = []"
proof -
  have f: "filter_title [(0, [ex_note])] [] = [ex_note]" by (simp add: filter_title_def)
  have 1: "card (font_size ` set (filter_title [(0, [ex_note])] [])) = 1"
    by (simp add: f)
  have 2: "\<forall>s\<in>set (filter_title [(0, [ex_note])] []). \<not> is_bold s"
    unfolding f by (simp add: ex_note_def)
  from single_size_no_bold_no_headings [OF 1 2] 1 2 show ?thesis
    by (simp add: list_all_iff)
qed

theorem headings_valid_and_not_title_witness:
  "ex_section_heading \<in> set (snd (build_outline ascii_library ex_sbp)) \<and>
   is_valid_heading ascii_library (heading_text ex_section_heading) \<and>
   heading_text ex_section_heading \<notin>
     span_text ` set (snd (fst (extract_title ascii_library (get_page0 ex_sbp))))"
proof -
  have 1: "ex_section_heading \<in> set (snd (build_outline ascii_library ex_sbp))"
    by (simp add: ex_pipeline [OF ascii_library_conformant])
  from headings_valid_and_not_title [OF 1] 1 show ?thesis by blast
qed

section \<open>The filler test\<close>

lemma filler_rejected:
  "list_all (\<lambda>c. c \<in> set filler_chars) (normalize_text L s) \<Longrightarrow> \<not> is_valid_heading L s"
  by (simp add: is_valid_heading_def Let_def)

lemma strip_bullets: "strip [8226, 8226] = [8226, 8226]"
  by (simp add: strip_def py_isspace_def)

text \<open>
  C8: the set of the filler test holds no bullet (U+2022), so a string of two bullets
  passes every test of \<open>is_valid_heading\<close>, for any library that leaves the string as it
  is under NFC and in which a bullet is no decimal digit and matches none of the letters
  P, M, V.
\<close>

theorem bullets_pass_validator:
  assumes "nfc L [8226, 8226] = [8226, 8226]" and "\<not> isdecimal L 8226"
    and "\<not> ignorecase_eq L 80 8226" "\<not> ignorecase_eq L 77 8226" "\<not> ignorecase_eq L 86 8226"
  shows "is_valid_heading L [8226, 8226]"
proof (rule is_valid_heading_first_char)
  show "normalize_text L [8226, 8226] = [8226, 8226]"
    by (simp add: normalize_text_def strip_bullets assms(1))
  show "length [8226, 8226 :: nat] \<le> MAX_HEADING_CHARS" by (simp add: MAX_HEADING_CHARS_def)
  show "\<not> list_all (\<lambda>x. x \<in> set filler_chars) [8226, 8226]" by (simp add: filler_chars_def)
  show "\<not> py_isspace 8226" by (simp add: py_isspace_def)
qed (use assms in simp_all)

theorem bullets_pass_validator_witness:
  "nfc ascii_library [8226, 8226] = [8226, 8226] \<and> \<not> isdecimal ascii_library 8226 \<and>
   \<not> ignorecase_eq ascii_library 80 8226 \<and> \<not> ignorecase_eq ascii_library 77 8226 \<and>
   \<not> ignorecase_eq ascii_library 86 8226 \<and> is_valid_heading ascii_library [8226, 8226]"
proof -
  have 1: "nfc ascii_library [8226, 8226] = [8226, 8226]" by (simp add: ascii_library_def)
  have 2: "\<not> isdecimal ascii_library 8226" by (simp add: ascii_library_def ascii_digit_def)
  have 3: "\<not> ignorecase_eq ascii_library 80 8226" by (simp add: ascii_library_def ascii_lower_def)
  have 4: "\<not> ignorecase_eq ascii_library 77 8226" by (simp add: ascii_library_def ascii_lower_def)
  have 5: "\<not> ignorecase_eq ascii_library 86 8226" by (simp add: ascii_library_def ascii_lower_def)
  from bullets_pass_validator [OF 1 2 3 4 5] 1 2 3 4 5 show ?thesis by blast
qed

section \<open>The in-place sort of extract_title\<close>

lemma extract_title_after:
  "snd (extract_title L spans) = sort_key (\<lambda>s. (- font_size s, bbox_top (bbox s))) spans"
  by (simp add: extract_title_def Let_def)

text \<open>
  C9, as amended: \<open>extract_title\<close> leaves in its argument the same elements, stably
  sorted by font size descending, then top coordinate; \<open>assign_heading_levels\<close> then
  reads the spans of page 0 in that order.
\<close>

theorem extract_title_sorts_argument:
  "snd (extract_title L spans) = sort_key (\<lambda>s. (- font_size s, bbox_top (bbox s))) spans \<and>
   mset (snd (extract_title L spans)) = mset spans \<and>
   build_outline L sbp =
     (fst (fst (extract_title L (get_page0 sbp))),
      assign_heading_levels L
        (set_page0 sbp (sort_key (\<lambda>s. (- font_size s, bbox_top (bbox s))) (get_page0 sbp)))
        (snd (fst (extract_title L (get_page0 sbp)))))"
proof -
  have "build_outline L sbp =
     (fst (fst (extract_title L (get_page0 sbp))),
      assign_heading_levels L (set_page0 sbp (snd (extract_title L (get_page0 sbp))))
        (snd (fst (extract_title L (get_page0 sbp)))))"
    by (simp add: build_outline_def split: prod.splits)
  then show ?thesis by (simp add: extract_title_after)
qed

text \<open>
  C9 as stated fails: called on the list "sub note", "Title Text", \<open>extract_title\<close>
  leaves the list in the other order.
\<close>

theorem extract_title_reorders_counterexample:
  "snd (extract_title ascii_library [ex_note, ex_title]) = [ex_title, ex_note] \<and>
   snd (extract_title ascii_library [ex_note, ex_title]) \<noteq> [ex_note, ex_title]"
  by (simp add: extract_title_after ex_note_def ex_title_def)

section \<open>Table exclusion\<close>

lemma collect_span_Some:
  assumes "collect_span L tbs p rs = Some s"
  shows "page s = p" and "bbox s = raw_bbox rs"
    and "\<not> list_ex (\<lambda>tb. intersects L (raw_bbox rs) tb) tbs"
  using assms by (auto simp: collect_span_def Let_def split: if_splits)

lemma collect_span_intersects:
  "tb \<in> set tbs \<Longrightarrow> intersects L (raw_bbox rs) tb \<Longrightarrow> collect_span L tbs p rs = None"
  by (auto simp: collect_span_def Let_def list_ex_iff)

lemma block_spans_props:
  assumes "s \<in> set (block_spans L tbs p b)"
  shows "page s = p \<and> (\<forall>tb\<in>set tbs. \<not> intersects L (bbox s) tb)"
proof -
  from assms obtain rs where "collect_span L tbs p rs = Some s"
    by (auto simp: block_spans_def set_map_filter split: option.splits if_splits)
  from collect_span_Some [OF this] show ?thesis by (simp add: list_ex_iff)
qed

lemma page_spans_props:
  assumes "s \<in> set (page_spans L p pg)"
  shows "page s = p \<and> (\<forall>tb\<in>set (table_bboxes pg). \<not> intersects L (bbox s) tb)"
  using assms block_spans_props by (fastforce simp: page_spans_def)

lemma buffered_in_table_bboxes:
  "t \<in> set (tables pg) \<Longrightarrow> table_bbox t = Some b \<Longrightarrow> buffered_bbox b \<in> set (table_bboxes pg)"
  by (force simp: table_bboxes_def set_map_filter)

lemma extract_spans_entry:
  "(q, ss) \<in> set (extract_spans L doc) \<Longrightarrow> q < length doc \<and> ss = page_spans L q (doc ! q)"
  by (auto simp: extract_spans_def)

lemma collected_span_props:
  assumes "s \<in> set (concat (map snd (extract_spans L doc)))"
  shows "page s < length doc \<and>
         (\<forall>tb\<in>set (table_bboxes (doc ! page s)). \<not> intersects L (bbox s) tb)"
proof -
  from assms obtain q ss where e: "(q, ss) \<in> set (extract_spans L doc)" and s: "s \<in> set ss"
    by auto
  from extract_spans_entry [OF e] s page_spans_props [of s L q "doc ! q"]
  show ?thesis by auto
qed

lemma get_page0_subset: "set (get_page0 sbp) \<subseteq> set (concat (map snd sbp))"
proof (cases "map_of sbp 0")
  case None
  then show ?thesis by (simp add: get_page0_def)
next
  case (Some ss)
  then have "(0, ss) \<in> set sbp" by (rule map_of_SomeD)
  then have "set ss \<subseteq> set (concat (map snd sbp))" by force
  with Some show ?thesis by (simp add: get_page0_def)
qed

lemma title_spans_subset: "set (snd (fst (extract_title L xs))) \<subseteq> set xs"
  by (auto simp: extract_title_def Let_def)

lemma set_page0_spans:
  "set ss = set (get_page0 sbp) \<Longrightarrow>
   set (concat (map snd (set_page0 sbp ss))) \<subseteq> set (concat (map snd sbp))"
proof (induction sbp)
  case Nil
  show ?case by (simp add: set_page0_def)
next
  case (Cons e sbp)
  obtain q xs where e: "e = (q, xs)" by (cases e)
  show ?case
  proof (cases "q = 0")
    case True
    with Cons.prems e have "set ss = set xs" by (simp add: get_page0_def)
    moreover have "set (concat (map snd (set_page0 sbp ss))) \<subseteq> set ss \<union> set (concat (map snd sbp))"
      by (auto simp: set_page0_def split: if_splits)
    ultimately show ?thesis using True e by (auto simp: set_page0_def)
  next
    case False
    with Cons.prems e have "set ss = set (get_page0 sbp)" by (simp add: get_page0_def)
    from Cons.IH [OF this] False e show ?thesis by (auto simp: set_page0_def)
  qed
qed

lemma filter_title_subset: "set (filter_title sbp ts) \<subseteq> set (concat (map snd sbp))"
  by (auto simp: filter_title_def)

lemma outline_heading_source:
  assumes "h \<in> set (snd (build_outline L sbp))"
  shows "\<exists>s\<in>set (concat (map snd sbp)). span_text s = heading_text h \<and> page s = heading_page h"
proof -
  obtain title ts after where et: "extract_title L (get_page0 sbp) = ((title, ts), after)"
    by (metis prod.collapse)
  have "after = snd (extract_title L (get_page0 sbp))" by (simp add: et)
  then have "set after = set (get_page0 sbp)" by (simp add: extract_title_after)
  note sub = set_page0_spans [OF this]
  from assms have "h \<in> set (assign_heading_levels L (set_page0 sbp after) ts)"
    by (simp add: build_outline_def et)
  then obtain s where s: "s \<in> set (filter_title (set_page0 sbp after) ts)"
    and hs: "heading_of L (size_thresholds (filter_title (set_page0 sbp after) ts)) s = Some h"
    by (auto simp: set_assign_heading_levels)
  from s sub filter_title_subset have "s \<in> set (concat (map snd sbp))" by blast
  with hs show ?thesis by (auto simp: heading_of_Some)
qed

text \<open>
  C7: let a table of page \<open>p\<close> have a box and let the box of a fragment \<open>rs\<close> intersect
  that box after the expansion by the buffer. Then the span loop skips \<open>rs\<close> on page
  \<open>p\<close>; no collected span, and so no span of the title, is on page \<open>p\<close> with the
  box of \<open>rs\<close>; and every heading of the outline has the text and page of a collected
  span that is not on page \<open>p\<close> with that box. The font size plays no part.
\<close>

theorem table_fragment_excluded:
  assumes "p < length doc" and "t \<in> set (tables (doc ! p))" and "table_bbox t = Some b"
    and "intersects L (raw_bbox rs) (buffered_bbox b)"
  shows "collect_span L (table_bboxes (doc ! p)) p rs = None \<and>
         (\<forall>s\<in>set (concat (map snd (extract_spans L doc))).
            \<not> (page s = p \<and> bbox s = raw_bbox rs)) \<and>
         (\<forall>s\<in>set (snd (fst (extract_title L (get_page0 (extract_spans L doc))))).
            \<not> (page s = p \<and> bbox s = raw_bbox rs)) \<and>
         (\<forall>h\<in>set (snd (extract_outline_from_pdf L doc)).
            \<exists>s\<in>set (concat (map snd (extract_spans L doc))).
              span_text s = heading_text h \<and> page s = heading_page h \<and>
              \<not> (page s = p \<and> bbox s = raw_bbox rs))"
proof -
  have tb: "buffered_bbox b \<in> set (table_bboxes (doc ! p))"
    using assms(2,3) by (rule buffered_in_table_bboxes)
  have 1: "collect_span L (table_bboxes (doc ! p)) p rs = None"
    using tb assms(4) by (rule collect_span_intersects)
  have 2: "\<not> (page s = p \<and> bbox s = raw_bbox rs)"
    if "s \<in> set (concat (map snd (extract_spans L doc)))" for s
    using collected_span_props [OF that] tb assms(4) by auto
  have 3: "\<not> (page s = p \<and> bbox s = raw_bbox rs)"
    if "s \<in> set (snd (fst (extract_title L (get_page0 (extract_spans L doc)))))" for s
    using that title_spans_subset get_page0_subset 2 by blast
  have 4: "\<exists>s\<in>set (concat (map snd (extract_spans L doc))).
              span_text s = heading_text h \<and> page s = heading_page h \<and>
              \<not> (page s = p \<and> bbox s = raw_bbox rs)"
    if "h \<in> set (snd (extract_outline_from_pdf L doc))" for h
    using outline_heading_source [of h L "extract_spans L doc"] that 2
    unfolding extract_outline_from_pdf_def by blast
  from 1 2 3 4 show ?thesis by blast
qed

theorem table_fragment_excluded_witness:
  "0 < length ex_doc \<and> ex_table \<in> set (tables (ex_doc ! 0)) \<and>
   table_bbox ex_table = Some (100, 100, 200, 200) \<and>
   intersects ascii_library (raw_bbox ex_cell) (buffered_bbox (100, 100, 200, 200)) \<and>
   collect_span ascii_library (table_bboxes (ex_doc ! 0)) 0 ex_cell = None"
proof -
  have 1: "0 < length ex_doc" by (simp add: ex_doc_def)
  have 2: "ex_table \<in> set (tables (ex_doc ! 0))" by (simp add: ex_doc_def)
  have 3: "table_bbox ex_table = Some (100, 100, 200, 200)" by (simp add: ex_table_def)
  have 4: "intersects ascii_library (raw_bbox ex_cell) (buffered_bbox (100, 100, 200, 200))"
    by (simp add: ascii_library_def rect_overlap_def ex_cell_def buffered_bbox_def
        BUFFER_SIZE_def)
  from table_fragment_excluded [OF 1 2 3 4] 1 2 3 4 show ?thesis by blast
qed

section \<open>Title extraction\<close>

lemma gap_groups_nonempty: "xs \<noteq> [] \<Longrightarrow> gap_groups xs \<noteq> []"
  by (induction xs rule: gap_groups.induct) (auto split: list.splits)

lemma line_buffer_Cons: "line_buffer (s # g) = 32 # span_text s @ line_buffer g"
  by (simp add: line_buffer_def)

lemma line_buffer_Nil: "line_buffer [] = []"
  by (simp add: line_buffer_def)

lemma title_loop_groups:
  "gap_groups (s # ss) = g # gs \<Longrightarrow>
   title_loop ss lines (cur @ 32 # span_text s) (Some (bbox_bottom (bbox s))) =
     (lines @ map strip (butlast ((cur @ line_buffer g) # map line_buffer gs)),
      last ((cur @ line_buffer g) # map line_buffer gs))"
proof (induction ss arbitrary: s lines cur g gs)
  case Nil
  then show ?case by (auto simp: line_buffer_Cons line_buffer_Nil)
next
  case (Cons t ss)
  from gap_groups_nonempty [of "t # ss"] obtain g' gs' where G: "gap_groups (t # ss) = g' # gs'"
    by (cases "gap_groups (t # ss)") auto
  show ?case
  proof (cases "\<bar>bbox_top (bbox t) - bbox_bottom (bbox s)\<bar> > VERTICAL_TOLERANCE")
    case True
    with Cons.prems G have g: "g = [s]" "gs = g' # gs'" by simp_all
    have "title_loop (t # ss) lines (cur @ 32 # span_text s) (Some (bbox_bottom (bbox s))) =
          title_loop ss (lines @ [strip (cur @ 32 # span_text s)]) ([] @ 32 # span_text t)
            (Some (bbox_bottom (bbox t)))"
      using True by simp
    also have "\<dots> = ((lines @ [strip (cur @ 32 # span_text s)]) @
                      map strip (butlast (([] @ line_buffer g') # map line_buffer gs')),
                    last (([] @ line_buffer g') # map line_buffer gs'))"
      by (rule Cons.IH [OF G])
    also have "\<dots> = (lines @ map strip (butlast ((cur @ line_buffer g) # map line_buffer gs)),
                      last ((cur @ line_buffer g) # map line_buffer gs))"
      unfolding g by (simp add: line_buffer_Cons line_buffer_Nil)
    finally show ?thesis .
  next
    case False
    with Cons.prems G have g: "g = s # g'" "gs = gs'" by simp_all
    have "title_loop (t # ss) lines (cur @ 32 # span_text s) (Some (bbox_bottom (bbox s))) =
          title_loop ss lines ((cur @ 32 # span_text s) @ 32 # span_text t)
            (Some (bbox_bottom (bbox t)))"
      using False by simp
    also have "\<dots> = (lines @
                      map strip (butlast (((cur @ 32 # span_text s) @ line_buffer g') #
                        map line_buffer gs')),
                    last (((cur @ 32 # span_text s) @ line_buffer g') # map line_buffer gs'))"
      by (rule Cons.IH [OF G])
    also have "\<dots> = (lines @ map strip (butlast ((cur @ line_buffer g) # map line_buffer gs)),
                      last ((cur @ line_buffer g) # map line_buffer gs))"
      unfolding g by (simp add: line_buffer_Cons)
    finally show ?thesis .
  qed
qed

lemma strip_Cons_space: "py_isspace c \<Longrightarrow> strip (c # x) = strip x"
  by (simp add: strip_def)

lemma strip_snoc_space:
  assumes "py_isspace c"
  shows "strip (x @ [c]) = strip x"
proof (cases "\<forall>y\<in>set x. py_isspace y")
  case True
  have "dropWhile py_isspace x = []"
    by (rule iffD2 [OF dropWhile_eq_Nil_conv]) (use True in blast)
  moreover have "dropWhile py_isspace (x @ [c]) = []"
    by (rule iffD2 [OF dropWhile_eq_Nil_conv]) (use True assms in auto)
  ultimately show ?thesis by (simp only: strip_def rev.simps dropWhile.simps)
next
  case False
  then have "dropWhile py_isspace (x @ [c]) = dropWhile py_isspace x @ [c]"
    by (auto simp: dropWhile_append)
  then show ?thesis using assms by (simp add: strip_def)
qed

lemma strip_Nil: "strip [] = []"
  by (simp add: strip_def)

lemma join_snoc_empty: "xs \<noteq> [] \<Longrightarrow> join sep (xs @ [ [] ]) = join sep xs @ sep"
  by (induction sep xs rule: join.induct) auto

lemma line_buffer_join:
  "line_buffer g = (if g = [] then [] else 32 # join [32] (map span_text g))"
proof (induction g)
  case Nil
  show ?case by (simp add: line_buffer_def)
next
  case (Cons s g)
  then show ?case by (cases g) (simp_all add: line_buffer_Cons)
qed

lemma strip_line_buffer: "strip (line_buffer g) = strip (join [32] (map span_text g))"
  by (simp add: line_buffer_join strip_Cons_space py_isspace_def strip_Nil)

lemma title_lines_of_groups:
  "strip (join [32] (title_lines_of cands)) =
   strip (join [32] (map (\<lambda>g. strip (line_buffer g)) (gap_groups cands)))"
proof (cases cands)
  case Nil
  then show ?thesis by (simp add: title_lines_of_def strip_Nil)
next
  case (Cons s ss)
  from gap_groups_nonempty [of "s # ss"] obtain g gs where G: "gap_groups (s # ss) = g # gs"
    by (cases "gap_groups (s # ss)") auto
  define RL where "RL = map line_buffer (g # gs)"
  have RLne: "RL \<noteq> []" by (simp add: RL_def)
  have "title_loop (s # ss) [] [] None =
        title_loop ss [] ([] @ 32 # span_text s) (Some (bbox_bottom (bbox s)))"
    by simp
  also have "\<dots> = ([] @ map strip (butlast (([] @ line_buffer g) # map line_buffer gs)),
                    last (([] @ line_buffer g) # map line_buffer gs))"
    by (rule title_loop_groups [OF G])
  finally have tl: "title_loop (s # ss) [] [] None = (map strip (butlast RL), last RL)"
    by (simp add: RL_def)
  have split: "map strip RL = map strip (butlast RL) @ [strip (last RL)]"
    using RLne by (metis append_butlast_last_id list.simps(8,9) map_append)
  have m: "map (\<lambda>g. strip (line_buffer g)) (g # gs) = map strip RL"
    by (simp add: RL_def)
  show ?thesis
  proof (cases "strip (last RL) = []")
    case False
    then have "title_lines_of (s # ss) = map strip RL"
      unfolding title_lines_of_def tl by (simp add: split)
    then show ?thesis unfolding Cons G m by simp
  next
    case True
    then have t: "title_lines_of (s # ss) = map strip (butlast RL)"
      unfolding title_lines_of_def tl by simp
    have sp: "map strip RL = map strip (butlast RL) @ [ [] ]"
      using split True by simp
    show ?thesis
    proof (cases "butlast RL = []")
      case True
      then show ?thesis unfolding Cons G m t sp by (simp add: strip_Nil)
    next
      case False
      then have "join [32] (map strip (butlast RL) @ [ [] ]) = join [32] (map strip (butlast RL)) @ [32]"
        by (intro join_snoc_empty) simp
      then show ?thesis unfolding Cons G m t sp
        by (simp add: strip_snoc_space py_isspace_def)
    qed
  qed
qed

lemma title_text_spec:
  "strip (join [32] (title_lines_of cands)) = spec_title_text cands"
  by (simp add: title_lines_of_groups spec_title_text_def strip_line_buffer)

lemma hd_sort_key_min:
  assumes "xs \<noteq> []"
  shows "hd (sort_key f xs) \<in> set xs \<and> (\<forall>y\<in>set xs. f (hd (sort_key f xs)) \<le> f y)"
proof -
  from assms have ne: "sort_key f xs \<noteq> []" by (metis length_0_conv length_sort)
  then obtain z zs where z: "sort_key f xs = z # zs" by (cases "sort_key f xs") auto
  have "sorted (map f (z # zs))" unfolding z [symmetric] by simp
  then have "\<forall>y\<in>set (z # zs). f z \<le> f y" by auto
  moreover have "set (z # zs) = set xs" unfolding z [symmetric] by simp
  ultimately show ?thesis unfolding z by auto
qed

lemma max_size_first:
  assumes "spans \<noteq> []"
  shows "font_size (hd (sort_key (\<lambda>s. (- font_size s, bbox_top (bbox s))) spans)) =
         Max (font_size ` set spans)"
proof -
  let ?h = "hd (sort_key (\<lambda>s. (- font_size s, bbox_top (bbox s))) spans)"
  from hd_sort_key_min [OF assms, of "\<lambda>s. (- font_size s, bbox_top (bbox s))"]
  have mem: "?h \<in> set spans"
    and le: "\<forall>y\<in>set spans. (- font_size ?h, bbox_top (bbox ?h)) \<le> (- font_size y, bbox_top (bbox y))"
    by blast+
  from le have "\<forall>y\<in>set spans. font_size y \<le> font_size ?h"
    by (auto simp: less_eq_prod_def)
  with mem show ?thesis by (intro Max_eqI [symmetric]) auto
qed

lemma sorted_map_const: "sorted (map (\<lambda>x. c) l)"
  by (induction l) auto

lemma sort_after_size_sort:
  fixes xs :: "span list"
  shows "sort_key (\<lambda>s. (bbox_top (bbox s), bbox_left (bbox s)))
     (filter (\<lambda>s. font_size s = m) (sort_key (\<lambda>s. (- font_size s, bbox_top (bbox s))) xs)) =
   sort_key (\<lambda>s. (bbox_top (bbox s), bbox_left (bbox s))) (filter (\<lambda>s. font_size s = m) xs)"
proof -
  let ?k1 = "\<lambda>s::span. (- font_size s, bbox_top (bbox s))"
  let ?k2 = "\<lambda>s::span. (bbox_top (bbox s), bbox_left (bbox s))"
  let ?P = "\<lambda>s::span. font_size s = m"
  define ys where "ys = filter ?P xs"
  define zs where "zs = sort_key ?k2 (sort_key ?k1 ys)"
  have fs: "filter ?P (sort_key ?k1 xs) = sort_key ?k1 ys"
    by (simp add: ys_def filter_sort)
  have "sort_key ?k2 ys = zs"
  proof (rule properties_for_sort_key)
    show "mset zs = mset ys" by (simp add: zs_def)
    show "sorted (map ?k2 zs)" by (simp add: zs_def)
    fix k assume "k \<in> set zs"
    have "filter (\<lambda>x. ?k2 k = ?k2 x) zs = filter (\<lambda>x. ?k2 x = ?k2 k) zs"
      by (rule filter_cong) auto
    also have "\<dots> = filter (\<lambda>x. ?k2 x = ?k2 k) (sort_key ?k1 ys)"
      unfolding zs_def by (rule sort_key_stable)
    also have "\<dots> = sort_key ?k1 (filter (\<lambda>x. ?k2 x = ?k2 k) ys)"
      by (simp add: filter_sort)
    also have "\<dots> = filter (\<lambda>x. ?k2 x = ?k2 k) ys"
    proof (rule sort_key_id_if_sorted)
      have "map ?k1 (filter (\<lambda>x. ?k2 x = ?k2 k) ys) =
            map (\<lambda>x. (- m, bbox_top (bbox k))) (filter (\<lambda>x. ?k2 x = ?k2 k) ys)"
        by (rule map_cong) (auto simp: ys_def)
      then show "sorted (map ?k1 (filter (\<lambda>x. ?k2 x = ?k2 k) ys))"
        by (simp only: sorted_map_const)
    qed
    also have "\<dots> = filter (\<lambda>x. ?k2 k = ?k2 x) ys"
      by (rule filter_cong) auto
    finally show "filter (\<lambda>x. ?k2 k = ?k2 x) zs = filter (\<lambda>x. ?k2 k = ?k2 x) ys" .
  qed
  then show ?thesis by (simp add: zs_def fs ys_def)
qed

lemma extract_title_spec:
  "fst (extract_title L spans) =
     (let t = spec_title_text (spec_candidates spans)
      in if t = [] \<or> length t < MIN_HEADING_LEN \<or> re_match L False rx_symbols t
         then ([], []) else (t, spec_candidates spans))"
proof (cases "spans = []")
  case True
  then show ?thesis
    by (simp add: extract_title_def spec_candidates_def spec_title_text_def strip_Nil)
next
  case False
  have c: "sort_key (\<lambda>s. (bbox_top (bbox s), bbox_left (bbox s)))
             (filter (\<lambda>s. font_size s =
                  font_size (hd (sort_key (\<lambda>s. (- font_size s, bbox_top (bbox s))) spans)))
               (sort_key (\<lambda>s. (- font_size s, bbox_top (bbox s))) spans)) =
           spec_candidates spans"
    unfolding max_size_first [OF False] sort_after_size_sort spec_candidates_def ..
  show ?thesis
    unfolding extract_title_def Let_def c title_text_spec
    using False by simp
qed

lemma ustr_Annual:
  "ustr ''Annual Report'' = [65, 110, 110, 117, 97, 108, 32, 82, 101, 112, 111, 114, 116]"
  by (simp add: ustr_def)

lemma ustr_Edition:
  "ustr ''2024 Edition'' = [50, 48, 50, 52, 32, 69, 100, 105, 116, 105, 111, 110]"
  by (simp add: ustr_def)

lemma ustr_Annual_Edition:
  "ustr ''Annual Report 2024 Edition'' =
     [65, 110, 110, 117, 97, 108, 32, 82, 101, 112, 111, 114, 116, 32,
      50, 48, 50, 52, 32, 69, 100, 105, 116, 105, 111, 110]"
  by (simp add: ustr_def)

lemma strip_Annual: "strip (ustr ''Annual Report'') = ustr ''Annual Report''"
  unfolding ustr_Annual by (rule strip_id) (simp_all add: py_isspace_def)

lemma strip_Edition: "strip (ustr ''2024 Edition'') = ustr ''2024 Edition''"
  unfolding ustr_Edition by (rule strip_id) (simp_all add: py_isspace_def)

lemma strip_Annual_Edition:
  "strip (ustr ''Annual Report 2024 Edition'') = ustr ''Annual Report 2024 Edition''"
  unfolding ustr_Annual_Edition by (rule strip_id) (simp_all add: py_isspace_def)

lemma join_Annual_Edition:
  "ustr ''Annual Report'' @ 32 # ustr ''2024 Edition'' = ustr ''Annual Report 2024 Edition''"
  by (simp add: ustr_Annual ustr_Edition ustr_Annual_Edition)

lemma annual_report_title:
  assumes ac: "ascii_conformant L"
    and a: "a = \<lparr>span_text = ustr ''Annual Report'', font_size = 28, is_bold = ba,
                 bbox = (l1, 10, r1, bt1), page = p1\<rparr>"
    and b: "b = \<lparr>span_text = ustr ''2024 Edition'', font_size = 28, is_bold = bb,
                 bbox = (l2, 30, r2, bt2), page = p2\<rparr>"
  shows "fst (extract_title L [a, b]) = (ustr ''Annual Report 2024 Edition'', [a, b])"
proof -
  have m: "Max (font_size ` set [a, b]) = 28" by (simp add: a b)
  have c: "spec_candidates [a, b] = [a, b]"
    unfolding spec_candidates_def m by (simp add: a b bbox_top_def)
  have t: "spec_title_text [a, b] = ustr ''Annual Report 2024 Edition''"
  proof (cases "\<bar>bbox_top (bbox b) - bbox_bottom (bbox a)\<bar> > VERTICAL_TOLERANCE")
    case True
    then have gg: "gap_groups [a, b] = [ [a], [b] ]" by simp
    show ?thesis
      unfolding spec_title_text_def gg
      by (simp add: a b strip_Annual strip_Edition join_Annual_Edition strip_Annual_Edition)
  next
    case False
    then have gg: "gap_groups [a, b] = [ [a, b] ]" by simp
    show ?thesis
      unfolding spec_title_text_def gg
      by (simp add: a b join_Annual_Edition strip_Annual_Edition)
  qed
  have "isalnum L 65" using ac by (simp add: ascii_conformant_def ascii_alnum_def)
  then have sy: "\<not> re_match L False rx_symbols (ustr ''Annual Report 2024 Edition'')"
    unfolding ustr_Annual_Edition by (intro rx_symbols_first) simp_all
  have len: "\<not> length (ustr ''Annual Report 2024 Edition'') < MIN_HEADING_LEN"
    "ustr ''Annual Report 2024 Edition'' \<noteq> []"
    by (simp_all add: ustr_Annual_Edition MIN_HEADING_LEN_def)
  show ?thesis
    unfolding extract_title_spec c t Let_def using sy len by simp
qed

text \<open>
  C4: the pair that \<open>extract_title\<close> returns is the specification's: the candidates
  are the spans at the maximum font size ordered by top, then left; consecutive candidates
  are merged into one line while the gap is within the tolerance; lines and title are
  space-joined; the result is empty when the title fails the final test. For the spans
  "Annual Report" (size 28, top 10) and "2024 Edition" (size 28, top 30), whatever the
  rest of their boxes, the title is "Annual Report 2024 Edition".
\<close>

theorem title_extraction_rule:
  assumes "ascii_conformant L"
  shows "fst (extract_title L spans) =
           (let t = spec_title_text (spec_candidates spans)
            in if t = [] \<or> length t < MIN_HEADING_LEN \<or> re_match L False rx_symbols t
               then ([], []) else (t, spec_candidates spans)) \<and>
         fst (extract_title L
               [\<lparr>span_text = ustr ''Annual Report'', font_size = 28, is_bold = ba,
                  bbox = (l1, 10, r1, bt1), page = p1\<rparr>,
                \<lparr>span_text = ustr ''2024 Edition'', font_size = 28, is_bold = bb,
                  bbox = (l2, 30, r2, bt2), page = p2\<rparr>]) =
           (ustr ''Annual Report 2024 Edition'',
            [\<lparr>span_text = ustr ''Annual Report'', font_size = 28, is_bold = ba,
               bbox = (l1, 10, r1, bt1), page = p1\<rparr>,
             \<lparr>span_text = ustr ''2024 Edition'', font_size = 28, is_bold = bb,
               bbox = (l2, 30, r2, bt2), page = p2\<rparr>])"
  using extract_title_spec [of L spans] annual_report_title [OF assms refl refl] by blast

theorem title_extraction_rule_witness:
  "ascii_conformant ascii_library \<and>
   fst (extract_title ascii_library [ex_annual, ex_edition]) =
     (ustr ''Annual Report 2024 Edition'', [ex_annual, ex_edition]) \<and>
   gap_groups [ex_annual, ex_edition] = [ [ex_annual], [ex_edition] ]"
proof -
  have g: "gap_groups [ex_annual, ex_edition] = [ [ex_annual], [ex_edition] ]"
    by (simp add: ex_annual_def ex_edition_def bbox_top_def bbox_bottom_def
        VERTICAL_TOLERANCE_def)
  from title_extraction_rule [OF ascii_library_conformant,
      of "[]" True 72 300 24 0 False 72 280 44 0]
  have "fst (extract_title ascii_library [ex_annual, ex_edition]) =
     (ustr ''Annual Report 2024 Edition'', [ex_annual, ex_edition])"
    by (simp add: ex_annual_def ex_edition_def)
  with g ascii_library_conformant show ?thesis by blast
qed

end
